theory Spec2Isabelle
  imports Main "HOL-Library.Multiset" "HOL-Library.AList"
begin

unbundle bit_operations_syntax

section \<open>Hasher (core/src/hasher.ts)\<close>

subsection \<open>SHA-256, the digest behind \<^verbatim>\<open>createHash('sha256')\<close>\<close>

text \<open>
  \<^verbatim>\<open>hashString\<close> and \<^verbatim>\<open>hashBuffer\<close> call the SHA-256 of the Node runtime. The digest is
  written out here (FIPS 180-4) on 32-bit values carried as naturals, with every
  wrap-around explicit. A string is the list of its UTF-8 bytes, one \<^typ>\<open>char\<close> per byte.
\<close>

definition add32 :: "nat \<Rightarrow> nat \<Rightarrow> nat" where
  "add32 a b = (a + b) mod 4294967296"

definition rotr :: "nat \<Rightarrow> nat \<Rightarrow> nat" where
  "rotr n x = x div 2 ^ n + (x mod 2 ^ n) * 2 ^ (32 - n)"

definition shr :: "nat \<Rightarrow> nat \<Rightarrow> nat" where
  "shr n x = x div 2 ^ n"

definition not32 :: "nat \<Rightarrow> nat" where
  "not32 x = 4294967295 - x"

definition Ch :: "nat \<Rightarrow> nat \<Rightarrow> nat \<Rightarrow> nat" where
  "Ch x y z = (x AND y) XOR (not32 x AND z)"

definition Maj :: "nat \<Rightarrow> nat \<Rightarrow> nat \<Rightarrow> nat" where
  "Maj x y z = (x AND y) XOR (x AND z) XOR (y AND z)"

definition Sigma0 :: "nat \<Rightarrow> nat" where
  "Sigma0 x = rotr 2 x XOR rotr 13 x XOR rotr 22 x"

definition Sigma1 :: "nat \<Rightarrow> nat" where
  "Sigma1 x = rotr 6 x XOR rotr 11 x XOR rotr 25 x"

definition sigma0 :: "nat \<Rightarrow> nat" where
  "sigma0 x = rotr 7 x XOR rotr 18 x XOR shr 3 x"

definition sigma1 :: "nat \<Rightarrow> nat" where
  "sigma1 x = rotr 17 x XOR rotr 19 x XOR shr 10 x"

text \<open>The round constants and the initial hash value, in decimal.\<close>

definition K256 :: "nat list" where
  "K256 =
    [1116352408, 1899447441, 3049323471, 3921009573, 961987163, 1508970993,
     2453635748, 2870763221, 3624381080, 310598401, 607225278, 1426881987,
     1925078388, 2162078206, 2614888103, 3248222580, 3835390401, 4022224774,
     264347078, 604807628, 770255983, 1249150122, 1555081692, 1996064986,
     2554220882, 2821834349, 2952996808, 3210313671, 3336571891, 3584528711,
     113926993, 338241895, 666307205, 773529912, 1294757372, 1396182291,
     1695183700, 1986661051, 2177026350, 2456956037, 2730485921, 2820302411,
     3259730800, 3345764771, 3516065817, 3600352804, 4094571909, 275423344,
     430227734, 506948616, 659060556, 883997877, 958139571, 1322822218,
     1537002063, 1747873779, 1955562222, 2024104815, 2227730452, 2361852424,
     2428436474, 2756734187, 3204031479, 3329325298]"

definition H256 :: "nat list" where
  "H256 =
    [1779033703, 3144134277, 1013904242, 2773480762,
     1359893119, 2600822924, 528734635, 1541459225]"

text \<open>Four bytes, most significant first, make one word of the block.\<close>

fun words_of :: "nat list \<Rightarrow> nat list" where
  "words_of (a # b # c # d # r) = (((a * 256 + b) * 256 + c) * 256 + d) # words_of r"
| "words_of _ = []"

text \<open>The message schedule; the list holds the words most recent first.\<close>

fun schedule :: "nat \<Rightarrow> nat list \<Rightarrow> nat list" where
  "schedule 0 ws = ws"
| "schedule (Suc n) ws =
     schedule n (add32 (add32 (add32 (sigma1 (ws ! 1)) (ws ! 6)) (sigma0 (ws ! 14))) (ws ! 15) # ws)"

fun round256 :: "nat list \<Rightarrow> (nat \<times> nat) \<Rightarrow> nat list" where
  "round256 [a, b, c, d, e, f, g, h] (k, w) =
     (let t1 = add32 (add32 (add32 (add32 h (Sigma1 e)) (Ch e f g)) k) w;
          t2 = add32 (Sigma0 a) (Maj a b c)
      in [add32 t1 t2, a, b, c, add32 d t1, e, f, g])"
| "round256 st _ = st"

definition compress :: "nat list \<Rightarrow> nat list \<Rightarrow> nat list" where
  "compress hs block =
     (let w = rev (schedule 48 (rev (words_of block)))
      in map2 add32 hs (foldl round256 hs (zip K256 w)))"

definition be64 :: "nat \<Rightarrow> nat list" where
  "be64 n = map (\<lambda>i. (n div 256 ^ (7 - i)) mod 256) [0..<8]"

definition pad :: "nat list \<Rightarrow> nat list" where
  "pad m = m @ [128] @ replicate ((119 - length m mod 64) mod 64) 0 @ be64 (8 * length m)"

fun blocks :: "nat \<Rightarrow> nat list \<Rightarrow> nat list list" where
  "blocks 0 bs = []"
| "blocks (Suc n) bs = take 64 bs # blocks n (drop 64 bs)"

definition hexdigit :: "nat \<Rightarrow> char" where
  "hexdigit n = ''0123456789abcdef'' ! n"

definition hex32 :: "nat \<Rightarrow> string" where
  "hex32 w = map (\<lambda>i. hexdigit ((w div 16 ^ (7 - i)) mod 16)) [0..<8]"

definition sha256_words :: "nat list \<Rightarrow> nat list" where
  "sha256_words m = (let p = pad m in foldl compress H256 (blocks (length p div 64) p))"

definition sha256_hex :: "string \<Rightarrow> string" where
  "sha256_hex s = concat (map hex32 (sha256_words (map of_char s)))"

text \<open>\<^verbatim>\<open>createHash('sha256').update(str, 'utf8').digest('hex')\<close>\<close>

definition hashString :: "string \<Rightarrow> string" where
  "hashString str = sha256_hex str"

subsection \<open>The manifest hash\<close>

text \<open>
  \<^verbatim>\<open>computeManifestHash\<close> takes objects with a \<^verbatim>\<open>path\<close> and a \<^verbatim>\<open>hash\<close>; a \<^verbatim>\<open>FileEntry\<close>
  has both and three more fields, so it is an extension of the smaller record.
\<close>

record PathHash =
  path :: string
  hash :: string

record FileEntry = PathHash +
  size_bytes :: nat
  modifiedAt :: int
  isDirectory :: bool

text \<open>
  \<^verbatim>\<open>Array.prototype.sort\<close> with a compare function is stable: an element goes before the
  first one it does not compare greater than, equal ones keep their order. The compare
  function of the source is \<^verbatim>\<open>localeCompare\<close> of the runtime, a parameter here.
\<close>

fun insort_cmp :: "('a \<Rightarrow> 'a \<Rightarrow> int) \<Rightarrow> 'a \<Rightarrow> 'a list \<Rightarrow> 'a list" where
  "insort_cmp cmp x [] = [x]"
| "insort_cmp cmp x (y # ys) =
     (if cmp x y \<le> 0 then x # y # ys else y # insort_cmp cmp x ys)"

definition js_sort :: "('a \<Rightarrow> 'a \<Rightarrow> int) \<Rightarrow> 'a list \<Rightarrow> 'a list" where
  "js_sort cmp xs = foldr (insort_cmp cmp) xs []"

text \<open>\<^verbatim>\<open>Array.prototype.join\<close>: the separator stands between elements only.\<close>

fun js_join :: "string \<Rightarrow> string list \<Rightarrow> string" where
  "js_join sep [] = []"
| "js_join sep [x] = x"
| "js_join sep (x # y # ys) = x @ sep @ js_join sep (y # ys)"

definition computeManifestHash ::
  "(string \<Rightarrow> string \<Rightarrow> int) \<Rightarrow> 'a PathHash_scheme list \<Rightarrow> string" where
  "computeManifestHash localeCompare entries =
     (let sorted = js_sort (\<lambda>a b. localeCompare (path a) (path b)) entries;
          combined = js_join [CHR 0x0A] (map (\<lambda>e. path e @ '':'' @ hash e) sorted)
      in hashString combined)"

text \<open>Comparison of two strings byte by byte, the shorter first on a common prefix.\<close>

fun bytewise_compare :: "string \<Rightarrow> string \<Rightarrow> int" where
  "bytewise_compare [] [] = 0"
| "bytewise_compare [] (y # ys) = - 1"
| "bytewise_compare (x # xs) [] = 1"
| "bytewise_compare (x # xs) (y # ys) =
     (if (of_char x :: nat) < of_char y then - 1
      else if (of_char y :: nat) < of_char x then 1
      else bytewise_compare xs ys)"

text \<open>
  The manifest digest in the words of the specification: the records
  \<^verbatim>\<open>path TAB content-hash LF\<close>, one per entry, entries ordered by bytewise comparison of
  their paths, hashed with SHA-256 and written as hex.
\<close>

definition spec_manifest_digest :: "'a PathHash_scheme list \<Rightarrow> string" where
  "spec_manifest_digest entries =
     sha256_hex (concat (map (\<lambda>e. path e @ [CHR 0x09] @ hash e @ [CHR 0x0A])
       (js_sort (\<lambda>a b. bytewise_compare (path a) (path b)) entries)))"

text \<open>
  A compare function is consistent on a set when it is total and transitive there, and
  linear when moreover only equal elements compare equal.
\<close>

definition consistent_on :: "'a set \<Rightarrow> ('a \<Rightarrow> 'a \<Rightarrow> int) \<Rightarrow> bool" where
  "consistent_on A cmp \<longleftrightarrow>
     (\<forall>x\<in>A. \<forall>y\<in>A. cmp x y \<le> 0 \<or> cmp y x \<le> 0) \<and>
     (\<forall>x\<in>A. \<forall>y\<in>A. \<forall>z\<in>A. cmp x y \<le> 0 \<longrightarrow> cmp y z \<le> 0 \<longrightarrow> cmp x z \<le> 0)"

definition linear_on :: "'a set \<Rightarrow> ('a \<Rightarrow> 'a \<Rightarrow> int) \<Rightarrow> bool" where
  "linear_on A cmp \<longleftrightarrow>
     consistent_on A cmp \<and> (\<forall>x\<in>A. \<forall>y\<in>A. cmp x y \<le> 0 \<longrightarrow> cmp y x \<le> 0 \<longrightarrow> x = y)"

section \<open>Conflict copies (core/src/sync.ts, keep-both)\<close>

text \<open>\<^verbatim>\<open>String.prototype.includes\<close>\<close>

fun js_includes :: "string \<Rightarrow> string \<Rightarrow> bool" where
  "js_includes [] pat = (pat = [])"
| "js_includes (c # cs) pat = (take (length pat) (c # cs) = pat \<or> js_includes cs pat)"

text \<open>\<^verbatim>\<open>String.prototype.split\<close> with a one-character separator; the result is never empty.\<close>

fun js_split :: "char \<Rightarrow> string \<Rightarrow> string list" where
  "js_split sep [] = [[]]"
| "js_split sep (c # cs) =
     (if c = sep then [] # js_split sep cs
      else (case js_split sep cs of
              [] \<Rightarrow> [[c]]
            | w # ws \<Rightarrow> (c # w) # ws))"

text \<open>\<^verbatim>\<open>String.prototype.replace\<close> with a string pattern: the first occurrence only.\<close>

fun js_replace :: "string \<Rightarrow> string \<Rightarrow> string \<Rightarrow> string" where
  "js_replace [] pat rep = (if pat = [] then rep else [])"
| "js_replace (c # cs) pat rep =
     (if take (length pat) (c # cs) = pat then rep @ drop (length pat) (c # cs)
      else c # js_replace cs pat rep)"

text \<open>
  The name under which \<^verbatim>\<open>pull\<close> keeps the local version of a conflicting path:
  \<^verbatim>\<open>
  const ext = conflict.path.includes('.') ? '.' + conflict.path.split('.').pop() : '';
  const baseName = conflict.path.replace(ext, '');
  const conflictPath = `${baseName}.local${ext}`;
  \<close>
\<close>

definition conflictPath :: "string \<Rightarrow> string" where
  "conflictPath p =
     (let ext = (if js_includes p ''.'' then ''.'' @ last (js_split (CHR ''.'') p) else '''');
          baseName = js_replace p ext ''''
      in baseName @ ''.local'' @ ext)"

text \<open>
  The name in the words of the specification: the path with \<^verbatim>\<open>.local\<close> put before its
  final extension, that is before the last dot and what follows it.
\<close>

definition spec_conflict_path :: "string \<Rightarrow> string" where
  "spec_conflict_path p =
     (if CHR ''.'' \<in> set p
      then (let ext = ''.'' @ last (js_split (CHR ''.'') p)
            in take (length p - length ext) p @ ''.local'' @ ext)
      else p @ ''.local'')"


section \<open>Errors\<close>

text \<open>
  A thrown \<^verbatim>\<open>Error\<close> is a value. A function that can throw returns its outcome together
  with the state it leaves behind: what it changed before throwing stays changed.
\<close>

datatype js_error = Error string

fun message_of :: "js_error \<Rightarrow> string" where
  "message_of (Error m) = m"

section \<open>Catalog (core/src/db.ts)\<close>

record Project =
  project_id :: string
  name :: string
  project_createdAt :: int
  lastSyncAt :: "int option"

record Snapshot =
  snapshot_id :: string
  projectId :: string
  message :: string
  createdAt :: int
  createdBy :: string
  manifestHash :: string
  fileCount :: nat
  totalSize :: nat
  branch :: string

text \<open>
  The tables the engine reads and writes, rows in insertion order; a row of
  \<^verbatim>\<open>file_entries\<close> is the snapshot id and the entry, a row of \<^verbatim>\<open>branches\<close> the project id,
  the name and the creation time. Times are instants; the ISO strings the source stores
  order as the instants do.
\<close>

record catalog =
  projects :: "Project list"
  snapshots :: "Snapshot list"
  branches :: "(string \<times> string \<times> int) list"
  file_entries :: "(string \<times> FileEntry) list"

text \<open>
  What the catalog object does to files on the mount. The file \<^verbatim>\<open>sync.db\<close> holds the
  export of the in-memory database, written here as the catalog it serialises.
\<close>

datatype db_io = WriteFile string catalog | Fsync string | Rename string string

record NetworkSyncDb =
  db :: "catalog option"
  dbPath :: string
  dirty :: bool
  io :: "db_io list"

text \<open>
  \<^verbatim>\<open>
  async save() {
    if (!this.db || !this.dirty) return;
    const data = this.db.export();
    const buffer = Buffer.from(data);
    await writeFile(this.dbPath, buffer);
    this.dirty = false;
  }
  \<close>
  The write operations call it without awaiting it; the model runs it to its end.
\<close>

definition save :: "NetworkSyncDb \<Rightarrow> NetworkSyncDb" where
  "save d =
     (case db d of
        None \<Rightarrow> d
      | Some c \<Rightarrow>
          if \<not> dirty d then d
          else d\<lparr>io := io d @ [WriteFile (dbPath d) c], dirty := False\<rparr>)"

definition not_initialized :: js_error where
  "not_initialized = Error ''Database not initialized''"

definition updateProject ::
  "string \<Rightarrow> string option \<Rightarrow> int option option \<Rightarrow> NetworkSyncDb \<Rightarrow>
   (js_error + unit) \<times> NetworkSyncDb" where
  "updateProject pid upd_name upd_lastSyncAt d =
     (case db d of
        None \<Rightarrow> (Inl not_initialized, d)
      | Some c \<Rightarrow>
          if upd_name = None \<and> upd_lastSyncAt = None then (Inr (), d)
          else
            let row = (\<lambda>p. if project_id p = pid
                        then p\<lparr>name := (case upd_name of None \<Rightarrow> name p | Some n \<Rightarrow> n),
                               lastSyncAt := (case upd_lastSyncAt of None \<Rightarrow> lastSyncAt p | Some l \<Rightarrow> l)\<rparr>
                        else p)
            in (Inr (), save (d\<lparr>db := Some (c\<lparr>projects := map row (projects c)\<rparr>), dirty := True\<rparr>)))"

text \<open>\<^verbatim>\<open>INSERT OR IGNORE INTO branches\<close>, then \<^verbatim>\<open>dirty = true; save()\<close>.\<close>

definition createBranch ::
  "string \<Rightarrow> string \<Rightarrow> int \<Rightarrow> NetworkSyncDb \<Rightarrow> (js_error + unit) \<times> NetworkSyncDb" where
  "createBranch pid bname now d =
     (case db d of
        None \<Rightarrow> (Inl not_initialized, d)
      | Some c \<Rightarrow>
          let rows = (if list_ex (\<lambda>(p, n, t). p = pid \<and> n = bname) (branches c) then branches c
                      else branches c @ [(pid, bname, now)])
          in (Inr (), save (d\<lparr>db := Some (c\<lparr>branches := rows\<rparr>), dirty := True\<rparr>)))"

text \<open>
  The loop of \<^verbatim>\<open>createSnapshot\<close> over the entries: the primary key
  \<^verbatim>\<open>(snapshot_id, path)\<close> makes the insert of a second row with the same path throw; the
  rows inserted before it stay in memory.
\<close>

fun insert_entries ::
  "string \<Rightarrow> FileEntry list \<Rightarrow> (string \<times> FileEntry) list \<Rightarrow>
   (js_error + unit) \<times> (string \<times> FileEntry) list" where
  "insert_entries sid [] rows = (Inr (), rows)"
| "insert_entries sid (e # es) rows =
     (if list_ex (\<lambda>(s, r). s = sid \<and> path r = path e) rows
      then (Inl (Error ''UNIQUE constraint failed: file_entries.snapshot_id, file_entries.path''), rows)
      else insert_entries sid es (rows @ [(sid, e)]))"

definition createSnapshot ::
  "Snapshot \<Rightarrow> FileEntry list \<Rightarrow> int \<Rightarrow> NetworkSyncDb \<Rightarrow> (js_error + unit) \<times> NetworkSyncDb" where
  "createSnapshot snapshot entries now d =
     (case db d of
        None \<Rightarrow> (Inl not_initialized, d)
      | Some c \<Rightarrow>
          if list_ex (\<lambda>s. snapshot_id s = snapshot_id snapshot) (snapshots c)
          then (Inl (Error ''UNIQUE constraint failed: snapshots.id''), d)
          else
            let b = (if branch snapshot = [] then ''main'' else branch snapshot);
                d1 = d\<lparr>db := Some (c\<lparr>snapshots := snapshots c @ [snapshot\<lparr>branch := b\<rparr>]\<rparr>)\<rparr>;
                d2 = snd (createBranch (projectId snapshot) b now d1)
            in (case db d2 of
                  None \<Rightarrow> (Inl not_initialized, d2)
                | Some c2 \<Rightarrow>
                    (case insert_entries (snapshot_id snapshot) entries (file_entries c2) of
                       (Inl e, rows) \<Rightarrow> (Inl e, d2\<lparr>db := Some (c2\<lparr>file_entries := rows\<rparr>)\<rparr>)
                     | (Inr u, rows) \<Rightarrow>
                         (Inr (), save (d2\<lparr>db := Some (c2\<lparr>file_entries := rows\<rparr>), dirty := True\<rparr>)))))"


definition getSnapshot :: "string \<Rightarrow> NetworkSyncDb \<Rightarrow> js_error + Snapshot option" where
  "getSnapshot sid d =
     (case db d of
        None \<Rightarrow> Inl not_initialized
      | Some c \<Rightarrow> Inr (find (\<lambda>s. snapshot_id s = sid) (snapshots c)))"

text \<open>
  \<^verbatim>\<open>... WHERE project_id = ? AND branch = ? ORDER BY created_at DESC LIMIT 1\<close>: of the
  matching rows one with the greatest creation time, the earliest inserted among equals.
\<close>

definition getLatestSnapshot :: "string \<Rightarrow> string \<Rightarrow> NetworkSyncDb \<Rightarrow> js_error + Snapshot option" where
  "getLatestSnapshot pid b d =
     (case db d of
        None \<Rightarrow> Inl not_initialized
      | Some c \<Rightarrow>
          (case filter (\<lambda>s. projectId s = pid \<and> branch s = b) (snapshots c) of
             [] \<Rightarrow> Inr None
           | s # ss \<Rightarrow> Inr (Some (foldl (\<lambda>best t. if createdAt best < createdAt t then t else best) s ss))))"

text \<open>\<^verbatim>\<open>mapFileEntry\<close> sets \<^verbatim>\<open>isDirectory: false\<close> on every row it returns.\<close>

definition getSnapshotEntries :: "string \<Rightarrow> NetworkSyncDb \<Rightarrow> js_error + FileEntry list" where
  "getSnapshotEntries sid d =
     (case db d of
        None \<Rightarrow> Inl not_initialized
      | Some c \<Rightarrow> Inr (map (\<lambda>(s, r). r\<lparr>isDirectory := False\<rparr>) (filter (\<lambda>(s, r). s = sid) (file_entries c))))"

text \<open>\<^verbatim>\<open>SELECT DISTINCT hash FROM file_entries\<close>, collected into a \<^verbatim>\<open>Set\<close>.\<close>

definition getAllReferencedHashes :: "NetworkSyncDb \<Rightarrow> js_error + string set" where
  "getAllReferencedHashes d =
     (case db d of
        None \<Rightarrow> Inl not_initialized
      | Some c \<Rightarrow> Inr (set (map (\<lambda>(s, r). hash r) (file_entries c))))"


fun writes_in_place :: "string \<Rightarrow> db_io \<Rightarrow> bool" where
  "writes_in_place target (WriteFile p c) = (p = target)"
| "writes_in_place target _ = False"


section \<open>Parameters of the runtime\<close>

text \<open>
  Functions of packages and of the runtime that the source calls and does not define:
  the xxHash64 of a byte sequence as sixteen hex digits, gzip and its inverse (which
  fails on input that is no gzip stream), \<^verbatim>\<open>localeCompare\<close>, the \<^verbatim>\<open>ignore\<close> package (does a
  list of gitignore patterns match a path), the matcher that
  \<^verbatim>\<open>createProjectIgnoreMatcher\<close> builds for the scanned directory, and the formatting of a
  time of day.
\<close>

record env =
  xxhash64 :: "string \<Rightarrow> string"
  gzip :: "string \<Rightarrow> string"
  gunzip :: "string \<Rightarrow> string option"
  localeCompare :: "string \<Rightarrow> string \<Rightarrow> int"
  ignores :: "string list \<Rightarrow> string \<Rightarrow> bool"
  projectIgnores :: "string \<Rightarrow> bool"
  toLocaleTimeString :: "int \<Rightarrow> string"

section \<open>Exclusion lock (core/src/lock.ts)\<close>

record LockInfo =
  machineName :: string
  lockedAt :: int
  operation :: string

text \<open>
  The lock on the mount: \<^verbatim>\<open>held\<close> says that \<^verbatim>\<open>lockfile.lock\<close> finds the sentinel locked
  and not stale on every retry; \<^verbatim>\<open>info\<close> is the content of \<^verbatim>\<open>sync.lock.info\<close>.
\<close>

record NasLock =
  held :: bool
  info :: "LockInfo option"

definition busy_message :: "env \<Rightarrow> LockInfo option \<Rightarrow> string" where
  "busy_message E existingInfo =
     (case existingInfo of
        Some i \<Rightarrow> ''Sync in progress by '' @ machineName i @ '' ('' @ operation i @
                  '' started at '' @ toLocaleTimeString E (lockedAt i) @ '')''
      | None \<Rightarrow> ''Unable to acquire sync lock. Another operation may be in progress.'')"

definition acquire :: "env \<Rightarrow> string \<Rightarrow> string \<Rightarrow> int \<Rightarrow> NasLock \<Rightarrow> (js_error + unit) \<times> NasLock" where
  "acquire E machine op now l =
     (if held l then (Inl (Error (busy_message E (info l))), l)
      else (Inr (), l\<lparr>held := True,
                      info := Some \<lparr>machineName = machine, lockedAt = now, operation = op\<rparr>\<rparr>))"

text \<open>The release handle: remove the info file, then release the sentinel.\<close>

definition release :: "NasLock \<Rightarrow> NasLock" where
  "release l = l\<lparr>held := False, info := None\<rparr>"

section \<open>Object store (core/src/storage.ts)\<close>

text \<open>
  The directory \<^verbatim>\<open>objects/\<close> holds prefix directories (and whatever else was put there);
  a prefix directory holds blobs, regular files named by their hash, and possibly
  directories. A directory is the list of its names with what they name, in the order
  \<^verbatim>\<open>readdir\<close> returns them. Either top directory can be missing.
\<close>

datatype dir_entry = Blob string | SubDir

datatype obj_entry = PrefixDir "(string \<times> dir_entry) list" | PlainFile string

record ContentStorage =
  objects :: "(string \<times> obj_entry) list option"
  temp :: "(string \<times> string) list option"

text \<open>\<^verbatim>\<open>getObjectPath\<close>: the first two characters of the hash name the prefix directory.\<close>

definition object_at :: "(string \<times> obj_entry) list \<Rightarrow> string \<Rightarrow> dir_entry option" where
  "object_at objs h =
     (case map_of objs (take 2 h) of
        Some (PrefixDir dir) \<Rightarrow> map_of dir h
      | _ \<Rightarrow> None)"

definition lookup_object :: "ContentStorage \<Rightarrow> string \<Rightarrow> dir_entry option" where
  "lookup_object st h = (case objects st of None \<Rightarrow> None | Some objs \<Rightarrow> object_at objs h)"

text \<open>\<^verbatim>\<open>exists\<close>: a \<^verbatim>\<open>stat\<close> of the object path succeeds.\<close>

definition exists_object :: "ContentStorage \<Rightarrow> string \<Rightarrow> bool" where
  "exists_object st h = (lookup_object st h \<noteq> None)"

text \<open>A blob is present when the object path names a regular file.\<close>

definition blob_present :: "ContentStorage \<Rightarrow> string \<Rightarrow> bool" where
  "blob_present st h = (case lookup_object st h of Some (Blob data) \<Rightarrow> True | _ \<Rightarrow> False)"

text \<open>
  \<^verbatim>\<open>storeFile\<close>, given what \<^verbatim>\<open>sourcePath\<close> holds (\<^verbatim>\<open>None\<close>: no such file, \<^verbatim>\<open>hashFile\<close>
  throws). The temporary file is written and renamed into place, so it is gone when the
  call returns; \<^verbatim>\<open>mkdir\<close> creates the prefix directory and throws where a file has its
  name; the write throws without a \<^verbatim>\<open>temp\<close> directory.
\<close>

definition storeFile ::
  "env \<Rightarrow> string option \<Rightarrow> ContentStorage \<Rightarrow> (js_error + string) \<times> ContentStorage" where
  "storeFile E source st =
     (case source of
        None \<Rightarrow> (Inl (Error ''ENOENT: no such file or directory''), st)
      | Some data \<Rightarrow>
          let h = xxhash64 E data in
          if exists_object st h then (Inr h, st)
          else
            let objs = (case objects st of None \<Rightarrow> [] | Some os \<Rightarrow> os) in
            (case map_of objs (take 2 h) of
               Some (PlainFile x) \<Rightarrow> (Inl (Error ''EEXIST: file already exists''), st)
             | Some (PrefixDir dir) \<Rightarrow>
                 (case temp st of
                    None \<Rightarrow> (Inl (Error ''ENOENT: no such file or directory''), st)
                  | Some t \<Rightarrow>
                      (Inr h, st\<lparr>objects := Some (AList.update (take 2 h)
                                   (PrefixDir (AList.update h (Blob (gzip E data)) dir)) objs)\<rparr>))
             | None \<Rightarrow>
                 (case temp st of
                    None \<Rightarrow> (Inl (Error ''ENOENT: no such file or directory''),
                              st\<lparr>objects := Some (AList.update (take 2 h) (PrefixDir []) objs)\<rparr>)
                  | Some t \<Rightarrow>
                      (Inr h, st\<lparr>objects := Some (AList.update (take 2 h)
                                   (PrefixDir [(h, Blob (gzip E data))]) objs)\<rparr>))))"

text \<open>\<^verbatim>\<open>bytesRead === 2 && buffer[0] === 0x1f && buffer[1] === 0x8b\<close>\<close>

definition isGzipped :: "string \<Rightarrow> bool" where
  "isGzipped data = (take 2 data = [CHR 0x1f, CHR 0x8b])"

text \<open>
  \<^verbatim>\<open>retrieveFile\<close>: the outcome and what became of the file at \<^verbatim>\<open>destPath\<close>. It never
  throws. A gzip stream that breaks leaves the destination created and cut short (written
  here as empty); a hash that does not match removes it.
\<close>

datatype dest_effect = Untouched | Written string | Removed

definition retrieveFile :: "env \<Rightarrow> ContentStorage \<Rightarrow> string \<Rightarrow> bool \<times> dest_effect" where
  "retrieveFile E st h =
     (case lookup_object st h of
        None \<Rightarrow> (False, Untouched)
      | Some SubDir \<Rightarrow> (False, Untouched)
      | Some (Blob data) \<Rightarrow>
          (case (if isGzipped data then gunzip E data else Some data) of
             None \<Rightarrow> (False, Written [])
           | Some out \<Rightarrow>
               if xxhash64 E out \<noteq> h then (False, Removed) else (True, Written out)))"

text \<open>\<^verbatim>\<open>cleanupTemp\<close>: remove the staging directory and make it anew.\<close>

definition cleanupTemp :: "ContentStorage \<Rightarrow> ContentStorage" where
  "cleanupTemp st = st\<lparr>temp := Some []\<rparr>"

text \<open>
  The inner loop of \<^verbatim>\<open>prune\<close> over the names \<^verbatim>\<open>readdir\<close> gave for one prefix directory.
  A name outside the live set is unlinked; where \<^verbatim>\<open>stat\<close> or \<^verbatim>\<open>unlink\<close> throws (the name is
  gone, or names a directory) the error is ignored and the loop goes on.
\<close>

fun prune_files ::
  "string set \<Rightarrow> string list \<Rightarrow> (string \<times> dir_entry) list \<Rightarrow> nat \<times> nat \<Rightarrow>
   (string \<times> dir_entry) list \<times> nat \<times> nat" where
  "prune_files activeHashes [] dir acc = (dir, acc)"
| "prune_files activeHashes (file # rest) dir (deletedCount, deletedSize) =
     (if file \<notin> activeHashes then
        (case map_of dir file of
           Some (Blob data) \<Rightarrow>
             prune_files activeHashes rest (AList.delete file dir)
               (deletedCount + 1, deletedSize + length data)
         | _ \<Rightarrow> prune_files activeHashes rest dir (deletedCount, deletedSize))
      else prune_files activeHashes rest dir (deletedCount, deletedSize))"

text \<open>
  The outer loop over the names in \<^verbatim>\<open>objects/\<close>. A name that is no directory is passed
  over; a \<^verbatim>\<open>stat\<close> that throws ends the whole walk (the outer \<^verbatim>\<open>catch\<close>); a prefix directory
  left empty is removed.
\<close>

fun prune_prefixes ::
  "string set \<Rightarrow> string list \<Rightarrow> (string \<times> obj_entry) list \<Rightarrow> nat \<times> nat \<Rightarrow>
   (string \<times> obj_entry) list \<times> nat \<times> nat" where
  "prune_prefixes activeHashes [] objs acc = (objs, acc)"
| "prune_prefixes activeHashes (prefix # rest) objs acc =
     (case map_of objs prefix of
        None \<Rightarrow> (objs, acc)
      | Some (PlainFile x) \<Rightarrow> prune_prefixes activeHashes rest objs acc
      | Some (PrefixDir dir) \<Rightarrow>
          (case prune_files activeHashes (map fst dir) dir acc of
             (remaining, acc') \<Rightarrow>
               prune_prefixes activeHashes rest
                 (if remaining = [] then AList.delete prefix objs
                  else AList.update prefix (PrefixDir remaining) objs) acc'))"

text \<open>A listing of \<^verbatim>\<open>objects/\<close> has each name once.\<close>

definition listed_once :: "ContentStorage \<Rightarrow> bool" where
  "listed_once st = (case objects st of None \<Rightarrow> True | Some objs \<Rightarrow> distinct (map fst objs))"

definition prune :: "string set \<Rightarrow> ContentStorage \<Rightarrow> (nat \<times> nat) \<times> ContentStorage" where
  "prune activeHashes st =
     (case objects st of
        None \<Rightarrow> ((0, 0), st)
      | Some objs \<Rightarrow>
          (case prune_prefixes activeHashes (map fst objs) objs (0, 0) of
             (objs', acc) \<Rightarrow> (acc, st\<lparr>objects := Some objs'\<rparr>)))"

section \<open>Scanner (core/src/scanner.ts)\<close>

text \<open>
  The directory a peer synchronises: its regular files by relative path (slashes as
  separators) in the order the walk meets them, without the \<^verbatim>\<open>.sync\<close> folder, and the
  parsed content of the hash cache \<^verbatim>\<open>.sync/cache.json\<close>. \<^verbatim>\<open>files = None\<close>: the directory
  is missing and \<^verbatim>\<open>readdir\<close> throws. \<^verbatim>\<open>cache_file = None\<close>: no cache file, or one that does
  not parse.
\<close>

record LocalFile =
  content :: string
  mtimeMs :: int

record HashCacheEntry =
  cache_mtime :: int
  cache_size :: nat
  cache_hash :: string

record local_dir =
  files :: "(string \<times> LocalFile) list option"
  cache_file :: "(string \<times> HashCacheEntry) list option"

record ScanResult =
  entries :: "FileEntry list"
  scanTotalSize :: nat
  scanFileCount :: nat

text \<open>
  \<^verbatim>\<open>new Map(pairs)\<close> and assignments to the keys of an object: a key keeps the place
  of its first insertion and the value of its last.
\<close>

definition js_Map :: "('k \<times> 'v) list \<Rightarrow> ('k \<times> 'v) list" where
  "js_Map pairs = foldl (\<lambda>m (k, v). AList.update k v m) [] pairs"

text \<open>
  The directories on the way from the root to a path: what stands before each slash.
\<close>

fun dirs_before :: "string \<Rightarrow> string \<Rightarrow> string list" where
  "dirs_before seen [] = []"
| "dirs_before seen (c # cs) =
     (if c = CHR ''/'' then seen # dirs_before (seen @ [c]) cs
      else dirs_before (seen @ [c]) cs)"

definition dir_paths :: "string \<Rightarrow> string list" where
  "dir_paths p = dirs_before [] p"

text \<open>
  \<^verbatim>\<open>walk\<close> reaches a file when the matcher ignores neither the file nor a directory above
  it.
\<close>

definition walk_visits :: "env \<Rightarrow> string \<Rightarrow> bool" where
  "walk_visits E p = (\<not> projectIgnores E p \<and> list_all (\<lambda>d. \<not> projectIgnores E d) (dir_paths p))"

text \<open>\<^verbatim>\<open>processFile\<close>: the cached hash when time and size are those of the cache entry.\<close>

definition processFile :: "env \<Rightarrow> (string \<times> HashCacheEntry) list \<Rightarrow> string \<times> LocalFile \<Rightarrow> FileEntry" where
  "processFile E cache pf =
     (case pf of (relativePath, f) \<Rightarrow>
        let h = (case map_of cache relativePath of
                   Some cached \<Rightarrow>
                     if cache_mtime cached = mtimeMs f \<and> cache_size cached = length (content f)
                     then cache_hash cached else xxhash64 E (content f)
                 | None \<Rightarrow> xxhash64 E (content f))
        in \<lparr>path = relativePath, hash = h, size_bytes = length (content f),
            modifiedAt = mtimeMs f, isDirectory = False\<rparr>)"

text \<open>
  \<^verbatim>\<open>scanDirectory(localPath, { cachePath })\<close> as the engine calls it: hashes are computed
  and the cache file is written anew at the end, with the paths met only. The counts of
  directories and the time of the scan are left out of the result.
\<close>

definition scanDirectory :: "env \<Rightarrow> local_dir \<Rightarrow> (js_error + ScanResult) \<times> local_dir" where
  "scanDirectory E loc =
     (case files loc of
        None \<Rightarrow> (Inl (Error ''ENOENT: no such file or directory, scandir''), loc)
      | Some fl \<Rightarrow>
          let cache = (case cache_file loc of None \<Rightarrow> [] | Some c \<Rightarrow> c);
              filesToProcess = filter (\<lambda>(p, f). walk_visits E p) fl;
              results = map (processFile E cache) filesToProcess;
              newCache = js_Map (map (\<lambda>e. (path e, \<lparr>cache_mtime = modifiedAt e,
                           cache_size = size_bytes e, cache_hash = hash e\<rparr>)) results)
          in (Inr \<lparr>entries = results, scanTotalSize = sum_list (map size_bytes results),
                   scanFileCount = length results\<rparr>,
              loc\<lparr>cache_file := Some newCache\<rparr>))"

text \<open>\<^verbatim>\<open>compareManifests\<close>: added, modified, deleted and unchanged, seen from the local side.\<close>

definition compareManifests ::
  "FileEntry list \<Rightarrow> FileEntry list \<Rightarrow> FileEntry list \<times> FileEntry list \<times> string list \<times> FileEntry list" where
  "compareManifests localEntries remoteEntries =
     (let localMap = js_Map (map (\<lambda>e. (path e, e)) localEntries);
          remoteMap = js_Map (map (\<lambda>e. (path e, e)) remoteEntries);
          added = map snd (filter (\<lambda>(p, l). map_of remoteMap p = None) localMap);
          modified = map snd (filter (\<lambda>(p, l). case map_of remoteMap p of
                        None \<Rightarrow> False | Some r \<Rightarrow> hash l \<noteq> hash r) localMap);
          unchanged = map snd (filter (\<lambda>(p, l). case map_of remoteMap p of
                        None \<Rightarrow> False | Some r \<Rightarrow> hash l = hash r) localMap);
          deleted = filter (\<lambda>p. map_of localMap p = None) (map fst remoteMap)
      in (added, modified, deleted, unchanged))"

section \<open>Engine (core/src/sync.ts)\<close>

record Conflict =
  cpath :: string
  localEntry :: FileEntry
  remoteEntry :: FileEntry
  localModifiedAt :: int
  remoteModifiedAt :: int

datatype resolution = keep_local | keep_remote | keep_both

text \<open>The fields the results of \<^verbatim>\<open>push\<close> and of \<^verbatim>\<open>pull\<close> share, then each result.\<close>

record SyncResult =
  success :: bool
  filesDeleted :: nat
  bytesTransferred :: nat
  error :: "string option"

record PullResult = SyncResult +
  filesDownloaded :: nat
  conflicts :: "Conflict list"

record PushResult = SyncResult +
  snapshot :: "Snapshot option"
  filesAdded :: nat
  filesModified :: nat

text \<open>
  What the engine did to the synchronised directory and to the store, one event per
  call, in the order of the calls.
\<close>

datatype io_event =
    Download string string
  | DeleteLocal string
  | RenameLocal string string
  | Upload string

text \<open>
  All an operation can read or change: the lock, the catalog, the object store, the
  directory at \<^verbatim>\<open>localPath\<close>, and the record of its calls.
\<close>

record world =
  lock :: NasLock
  database :: NetworkSyncDb
  storage :: ContentStorage
  local :: local_dir
  log :: "io_event list"

definition local_files :: "world \<Rightarrow> (string \<times> LocalFile) list" where
  "local_files w = (case files (local w) of None \<Rightarrow> [] | Some fl \<Rightarrow> fl)"

definition set_local_files :: "(string \<times> LocalFile) list \<Rightarrow> world \<Rightarrow> world" where
  "set_local_files fl w = w\<lparr>local := (local w)\<lparr>files := Some fl\<rparr>\<rparr>"

text \<open>
  \<^verbatim>\<open>if (includePatterns && includePatterns.length > 0) selectiveMatcher =
  createIgnoreMatcher(includePatterns)\<close>
\<close>

definition selectiveMatcher :: "env \<Rightarrow> string list option \<Rightarrow> (string \<Rightarrow> bool) option" where
  "selectiveMatcher E includePatterns =
     (case includePatterns of
        None \<Rightarrow> None
      | Some ps \<Rightarrow> if length ps > 0 then Some (ignores E ps) else None)"

text \<open>\<^verbatim>\<open>selectiveMatcher && !selectiveMatcher.ignores(path)\<close>\<close>

definition skipped :: "(string \<Rightarrow> bool) option \<Rightarrow> string \<Rightarrow> bool" where
  "skipped sel p = (case sel of None \<Rightarrow> False | Some m \<Rightarrow> \<not> m p)"

text \<open>
  The first loop of \<^verbatim>\<open>pull\<close>, over the remote map: what to download and what conflicts.
\<close>

fun pull_classify ::
  "(string \<Rightarrow> bool) option \<Rightarrow> (string \<times> FileEntry) list \<Rightarrow> (string \<times> FileEntry) list \<Rightarrow>
   FileEntry list \<times> Conflict list \<Rightarrow> FileEntry list \<times> Conflict list" where
  "pull_classify sel localMap [] acc = acc"
| "pull_classify sel localMap ((p, remoteE) # rest) (filesToDownload, cs) =
     (if skipped sel p then pull_classify sel localMap rest (filesToDownload, cs)
      else
        (case map_of localMap p of
           None \<Rightarrow> pull_classify sel localMap rest (filesToDownload @ [remoteE], cs)
         | Some localE \<Rightarrow>
             if hash localE \<noteq> hash remoteE then
               (if modifiedAt localE > modifiedAt remoteE
                then pull_classify sel localMap rest
                       (filesToDownload,
                        cs @ [\<lparr>cpath = p, localEntry = localE, remoteEntry = remoteE,
                               localModifiedAt = modifiedAt localE,
                               remoteModifiedAt = modifiedAt remoteE\<rparr>])
                else pull_classify sel localMap rest (filesToDownload @ [remoteE], cs))
             else pull_classify sel localMap rest (filesToDownload, cs)))"

text \<open>The first loop of \<^verbatim>\<open>restoreSnapshot\<close>: no conflict check.\<close>

definition restore_classify ::
  "(string \<Rightarrow> bool) option \<Rightarrow> (string \<times> FileEntry) list \<Rightarrow> (string \<times> FileEntry) list \<Rightarrow> FileEntry list" where
  "restore_classify sel localMap remoteMap =
     map snd (filter (\<lambda>(p, remoteE). \<not> skipped sel p \<and>
        (case map_of localMap p of None \<Rightarrow> True | Some localE \<Rightarrow> hash localE \<noteq> hash remoteE))
        remoteMap)"

text \<open>
  The second loop of both:
  \<^verbatim>\<open>
  // Find files to delete (exist locally but not remotely OR no longer in selective sync)
  for (const path of localMap.keys()) {
    const inRemote = remoteMap.has(path);
    const inSelective = !selectiveMatcher || selectiveMatcher.ignores(path);
    if (!inRemote || !inSelective) filesToDelete.push(path);
  }
  \<close>
\<close>

definition files_to_delete ::
  "(string \<Rightarrow> bool) option \<Rightarrow> (string \<times> FileEntry) list \<Rightarrow> (string \<times> FileEntry) list \<Rightarrow> string list" where
  "files_to_delete sel localMap remoteMap =
     filter (\<lambda>p. map_of remoteMap p = None \<or> skipped sel p) (map fst localMap)"

text \<open>
  \<^verbatim>\<open>rename\<close> in the synchronised directory; it throws when the source is missing. The
  directory of the target is taken to exist.
\<close>

definition rename_local :: "string \<Rightarrow> string \<Rightarrow> world \<Rightarrow> (js_error + unit) \<times> world" where
  "rename_local src dst w =
     (let w1 = w\<lparr>log := log w @ [RenameLocal src dst]\<rparr> in
      case map_of (local_files w1) src of
        None \<Rightarrow> (Inl (Error ''ENOENT: no such file or directory, rename''), w1)
      | Some f \<Rightarrow>
          (Inr (), set_local_files (AList.update dst f (AList.delete src (local_files w1))) w1))"

text \<open>The loop over the conflicts once resolutions are given.\<close>

fun apply_resolutions ::
  "(string \<times> resolution) list \<Rightarrow> Conflict list \<Rightarrow> FileEntry list \<Rightarrow> world \<Rightarrow>
   (js_error + FileEntry list) \<times> world" where
  "apply_resolutions resolutionMap [] filesToDownload w = (Inr filesToDownload, w)"
| "apply_resolutions resolutionMap (c # cs) filesToDownload w =
     (case map_of resolutionMap (cpath c) of
        Some keep_remote \<Rightarrow>
          apply_resolutions resolutionMap cs (filesToDownload @ [remoteEntry c]) w
      | Some keep_both \<Rightarrow>
          (case rename_local (cpath c) (conflictPath (cpath c)) w of
             (Inl e, w') \<Rightarrow> (Inl e, w')
           | (Inr u, w') \<Rightarrow>
               apply_resolutions resolutionMap cs (filesToDownload @ [remoteEntry c]) w')
      | _ \<Rightarrow> apply_resolutions resolutionMap cs filesToDownload w)"

text \<open>
  One download: \<^verbatim>\<open>await this.storage.retrieveFile(file.hash, localFilePath)\<close>, its
  outcome dropped. The batches of twenty run here one file after the other.
\<close>

definition download_file :: "env \<Rightarrow> int \<Rightarrow> FileEntry \<Rightarrow> world \<Rightarrow> world" where
  "download_file E now file w =
     (let w1 = w\<lparr>log := log w @ [Download (hash file) (path file)]\<rparr> in
      case snd (retrieveFile E (storage w1) (hash file)) of
        Untouched \<Rightarrow> w1
      | Removed \<Rightarrow> set_local_files (AList.delete (path file) (local_files w1)) w1
      | Written data \<Rightarrow>
          set_local_files (AList.update (path file) \<lparr>content = data, mtimeMs = now\<rparr>
            (local_files w1)) w1)"

fun download_all :: "env \<Rightarrow> int \<Rightarrow> FileEntry list \<Rightarrow> nat \<Rightarrow> world \<Rightarrow> nat \<times> world" where
  "download_all E now [] bytes w = (bytes, w)"
| "download_all E now (file # rest) bytes w =
     download_all E now rest (bytes + size_bytes file) (download_file E now file w)"

text \<open>\<^verbatim>\<open>try { await unlink(localFilePath) } catch { }\<close> for each path to delete.\<close>

fun delete_all :: "string list \<Rightarrow> world \<Rightarrow> world" where
  "delete_all [] w = w"
| "delete_all (p # ps) w =
     delete_all ps (set_local_files (AList.delete p (local_files w))
       (w\<lparr>log := log w @ [DeleteLocal p]\<rparr>))"

text \<open>The scan of the directory at \<^verbatim>\<open>localPath\<close>, within the world.\<close>

definition scan_local :: "env \<Rightarrow> world \<Rightarrow> (js_error + ScanResult) \<times> world" where
  "scan_local E w = (case scanDirectory E (local w) of (r, loc) \<Rightarrow> (r, w\<lparr>local := loc\<rparr>))"

text \<open>The world in which a \<^verbatim>\<open>try\<close> block starts: the lock taken for the operation.\<close>

definition taken :: "string \<Rightarrow> string \<Rightarrow> int \<Rightarrow> world \<Rightarrow> world" where
  "taken machine op now w = w\<lparr>lock := (lock w)\<lparr>held := True,
     info := Some \<lparr>machineName = machine, lockedAt = now, operation = op\<rparr>\<rparr>\<rparr>"

definition pull_failure :: "js_error \<Rightarrow> PullResult" where
  "pull_failure e = \<lparr>success = False, filesDeleted = 0, bytesTransferred = 0,
     error = Some (message_of e), filesDownloaded = 0, conflicts = []\<rparr>"

text \<open>
  The comparison in \<^verbatim>\<open>pull\<close>, from the two maps to the three lists: what to download,
  what conflicts, what to delete.
\<close>

definition pull_plan ::
  "env \<Rightarrow> string list option \<Rightarrow> FileEntry list \<Rightarrow> FileEntry list \<Rightarrow>
   FileEntry list \<times> Conflict list \<times> string list" where
  "pull_plan E includePatterns localEntries remoteEntries =
     (let localMap = js_Map (map (\<lambda>e. (path e, e)) localEntries);
          remoteMap = js_Map (map (\<lambda>e. (path e, e)) remoteEntries);
          sel = selectiveMatcher E includePatterns;
          classified = pull_classify sel localMap remoteMap ([], [])
      in (fst classified, snd classified, files_to_delete sel localMap remoteMap))"

text \<open>The same in \<^verbatim>\<open>restoreSnapshot\<close>: what to download, what to delete.\<close>

definition restore_plan ::
  "env \<Rightarrow> string list option \<Rightarrow> FileEntry list \<Rightarrow> FileEntry list \<Rightarrow>
   FileEntry list \<times> string list" where
  "restore_plan E includePatterns localEntries remoteEntries =
     (let localMap = js_Map (map (\<lambda>e. (path e, e)) localEntries);
          remoteMap = js_Map (map (\<lambda>e. (path e, e)) remoteEntries);
          sel = selectiveMatcher E includePatterns
      in (restore_classify sel localMap remoteMap, files_to_delete sel localMap remoteMap))"

text \<open>
  The last two phases of both operations, download and delete, and the result of a run
  that came this far.
\<close>

definition transfer ::
  "env \<Rightarrow> int \<Rightarrow> FileEntry list \<Rightarrow> string list \<Rightarrow> world \<Rightarrow> PullResult \<times> world" where
  "transfer E now filesToDownload filesToDelete w =
     (case download_all E now filesToDownload 0 w of
        (bytes, w') \<Rightarrow>
          (\<lparr>success = True, filesDeleted = length filesToDelete, bytesTransferred = bytes,
            error = None, filesDownloaded = length filesToDownload, conflicts = []\<rparr>,
           delete_all filesToDelete w'))"

text \<open>
  The \<^verbatim>\<open>try\<close> block of \<^verbatim>\<open>pull\<close>: what it returns or throws. The progress callbacks and
  the root hash that \<^verbatim>\<open>buildManifest\<close> computes, which \<^verbatim>\<open>pull\<close> does not read, are left
  out.
\<close>

definition pull_body ::
  "env \<Rightarrow> int \<Rightarrow> Project \<Rightarrow> string \<Rightarrow> (string \<times> resolution) list option \<Rightarrow> string list option \<Rightarrow>
   world \<Rightarrow> (js_error + PullResult) \<times> world" where
  "pull_body E now project br conflictResolutions includePatterns w =
     (case scan_local E w of
        (Inl e, w1) \<Rightarrow> (Inl e, w1)
      | (Inr scanResult, w1) \<Rightarrow>
          (case getLatestSnapshot (project_id project) br (database w1) of
             Inl e \<Rightarrow> (Inl e, w1)
           | Inr None \<Rightarrow>
               (Inr \<lparr>success = True, filesDeleted = 0, bytesTransferred = 0, error = None,
                     filesDownloaded = 0, conflicts = []\<rparr>, w1)
           | Inr (Some latestSnapshot) \<Rightarrow>
               (case getSnapshotEntries (snapshot_id latestSnapshot) (database w1) of
                  Inl e \<Rightarrow> (Inl e, w1)
                | Inr remoteEntries \<Rightarrow>
                    (case pull_plan E includePatterns (entries scanResult) remoteEntries of
                       (toDownload, cs, filesToDelete) \<Rightarrow>
                         if length cs > 0 \<and> conflictResolutions = None
                         then (Inr \<lparr>success = False, filesDeleted = 0, bytesTransferred = 0,
                                    error = None, filesDownloaded = 0, conflicts = cs\<rparr>, w1)
                         else
                           (case (case conflictResolutions of
                                    None \<Rightarrow> (Inr toDownload, w1)
                                  | Some rs \<Rightarrow> apply_resolutions (js_Map rs) cs toDownload w1) of
                              (Inl e, w2) \<Rightarrow> (Inl e, w2)
                            | (Inr filesToDownload, w2) \<Rightarrow>
                                (case transfer E now filesToDownload filesToDelete w2 of
                                   (r, w3) \<Rightarrow> (Inr r, w3)))))))"

text \<open>
  \<^verbatim>\<open>
  const syncLock = await this.lock.acquire(machineName, 'pull');
  try { ... } catch (error) { return { success: false, ..., error: error.message }; }
  finally { await syncLock.release(); }
  \<close>
  \<^verbatim>\<open>Inl\<close> is an exception that leaves the operation.
\<close>

definition pull ::
  "env \<Rightarrow> int \<Rightarrow> Project \<Rightarrow> string \<Rightarrow> string \<Rightarrow> (string \<times> resolution) list option \<Rightarrow>
   string list option \<Rightarrow> world \<Rightarrow> (js_error + PullResult) \<times> world" where
  "pull E now project machine br conflictResolutions includePatterns w =
     (case acquire E machine ''pull'' now (lock w) of
        (Inl e, l) \<Rightarrow> (Inl e, w\<lparr>lock := l\<rparr>)
      | (Inr u, l) \<Rightarrow>
          (case pull_body E now project br conflictResolutions includePatterns (w\<lparr>lock := l\<rparr>) of
             (Inl e, w') \<Rightarrow> (Inr (pull_failure e), w'\<lparr>lock := release (lock w')\<rparr>)
           | (Inr r, w') \<Rightarrow> (Inr r, w'\<lparr>lock := release (lock w')\<rparr>)))"

definition restore_body ::
  "env \<Rightarrow> int \<Rightarrow> Project \<Rightarrow> string \<Rightarrow> string list option \<Rightarrow> world \<Rightarrow>
   (js_error + PullResult) \<times> world" where
  "restore_body E now project snapshotId includePatterns w =
     (case getSnapshot snapshotId (database w) of
        Inl e \<Rightarrow> (Inl e, w)
      | Inr None \<Rightarrow> (Inl (Error ''Snapshot not found''), w)
      | Inr (Some snap) \<Rightarrow>
          (case scan_local E w of
             (Inl e, w1) \<Rightarrow> (Inl e, w1)
           | (Inr scanResult, w1) \<Rightarrow>
               (case getSnapshotEntries snapshotId (database w1) of
                  Inl e \<Rightarrow> (Inl e, w1)
                | Inr remoteEntries \<Rightarrow>
                    (case restore_plan E includePatterns (entries scanResult) remoteEntries of
                       (filesToDownload, filesToDelete) \<Rightarrow>
                         (case transfer E now filesToDownload filesToDelete w1 of
                            (r, w2) \<Rightarrow> (Inr r, w2))))))"

definition restoreSnapshot ::
  "env \<Rightarrow> int \<Rightarrow> Project \<Rightarrow> string \<Rightarrow> string \<Rightarrow> string list option \<Rightarrow> world \<Rightarrow>
   (js_error + PullResult) \<times> world" where
  "restoreSnapshot E now project snapshotId machine includePatterns w =
     (case acquire E machine ''restore'' now (lock w) of
        (Inl e, l) \<Rightarrow> (Inl e, w\<lparr>lock := l\<rparr>)
      | (Inr u, l) \<Rightarrow>
          (case restore_body E now project snapshotId includePatterns (w\<lparr>lock := l\<rparr>) of
             (Inl e, w') \<Rightarrow> (Inr (pull_failure e), w'\<lparr>lock := release (lock w')\<rparr>)
           | (Inr r, w') \<Rightarrow> (Inr r, w'\<lparr>lock := release (lock w')\<rparr>)))"

text \<open>
  The transfer loop of \<^verbatim>\<open>push\<close>: a file whose hash the store does not have is stored;
  \<^verbatim>\<open>storeFile\<close> can throw, which ends the loop. The batches of twenty run here one
  file after the other, so the files after the failing one are not stored.
\<close>

fun upload_all :: "env \<Rightarrow> FileEntry list \<Rightarrow> nat \<Rightarrow> world \<Rightarrow> (js_error + nat) \<times> world" where
  "upload_all E [] bytes w = (Inr bytes, w)"
| "upload_all E (file # rest) bytes w =
     (if exists_object (storage w) (hash file)
      then upload_all E rest (bytes + size_bytes file) w
      else
        (case storeFile E (map_option content (map_of (local_files w) (path file))) (storage w) of
           (Inl e, st) \<Rightarrow> (Inl e, w\<lparr>storage := st, log := log w @ [Upload (path file)]\<rparr>)
         | (Inr h, st) \<Rightarrow>
             upload_all E rest (bytes + size_bytes file)
               (w\<lparr>storage := st, log := log w @ [Upload (path file)]\<rparr>)))"

definition push_failure :: "js_error \<Rightarrow> PushResult" where
  "push_failure e = \<lparr>success = False, filesDeleted = 0, bytesTransferred = 0,
     error = Some (message_of e), snapshot = None, filesAdded = 0, filesModified = 0\<rparr>"

definition push_body ::
  "env \<Rightarrow> int \<Rightarrow> string \<Rightarrow> Project \<Rightarrow> string \<Rightarrow> string \<Rightarrow> string \<Rightarrow> world \<Rightarrow>
   (js_error + PushResult) \<times> world" where
  "push_body E now uuid project machine msg br w =
     (case scan_local E w of
        (Inl e, w1) \<Rightarrow> (Inl e, w1)
      | (Inr scanResult, w1) \<Rightarrow>
          (case getLatestSnapshot (project_id project) br (database w1) of
             Inl e \<Rightarrow> (Inl e, w1)
           | Inr latestSnapshot \<Rightarrow>
               (case (case latestSnapshot of
                        None \<Rightarrow> Inr []
                      | Some s \<Rightarrow> getSnapshotEntries (snapshot_id s) (database w1)) of
                  Inl e \<Rightarrow> (Inl e, w1)
                | Inr remoteEntries \<Rightarrow>
                    (case compareManifests (entries scanResult) remoteEntries of
                       (added, modified, deleted, unchanged) \<Rightarrow>
                         (case upload_all E (added @ modified) 0 w1 of
                            (Inl e, w2) \<Rightarrow> (Inl e, w2)
                          | (Inr bytes, w2) \<Rightarrow>
                              let snap = \<lparr>snapshot_id = uuid, projectId = project_id project,
                                          message = msg, createdAt = now, createdBy = machine,
                                          manifestHash = computeManifestHash (localeCompare E)
                                                           (entries scanResult),
                                          fileCount = length (entries scanResult),
                                          totalSize = scanTotalSize scanResult, branch = br\<rparr>
                              in (case createSnapshot snap (entries scanResult) now (database w2) of
                                    (Inl e, d) \<Rightarrow> (Inl e, w2\<lparr>database := d\<rparr>)
                                  | (Inr u, d) \<Rightarrow>
                                      (case updateProject (project_id project) None (Some (Some now)) d of
                                         (Inl e, d') \<Rightarrow> (Inl e, w2\<lparr>database := d'\<rparr>)
                                       | (Inr u', d') \<Rightarrow>
                                           (Inr \<lparr>success = True, filesDeleted = length deleted,
                                                 bytesTransferred = bytes, error = None,
                                                 snapshot = Some snap, filesAdded = length added,
                                                 filesModified = length modified\<rparr>,
                                            w2\<lparr>database := d'\<rparr>))))))))"

definition push ::
  "env \<Rightarrow> int \<Rightarrow> string \<Rightarrow> Project \<Rightarrow> string \<Rightarrow> string \<Rightarrow> string \<Rightarrow> world \<Rightarrow>
   (js_error + PushResult) \<times> world" where
  "push E now uuid project machine msg br w =
     (case acquire E machine ''push'' now (lock w) of
        (Inl e, l) \<Rightarrow> (Inl e, w\<lparr>lock := l\<rparr>)
      | (Inr u, l) \<Rightarrow>
          (case push_body E now uuid project machine msg br (w\<lparr>lock := l\<rparr>) of
             (Inl e, w') \<Rightarrow> (Inr (push_failure e), w'\<lparr>lock := release (lock w')\<rparr>)
           | (Inr r, w') \<Rightarrow> (Inr r, w'\<lparr>lock := release (lock w')\<rparr>)))"

text \<open>
  \<^verbatim>\<open>
  const syncLock = await this.lock.acquire(machineName, 'gc' as any);
  try {
    const activeHashes = this.db.getAllReferencedHashes();
    const result = await this.storage.prune(activeHashes);
    await this.storage.cleanupTemp();
    return result;
  } finally { await syncLock.release(); }
  \<close>
  There is no \<^verbatim>\<open>catch\<close>: what the block throws leaves the operation once the lock is
  released.
\<close>

definition runGarbageCollection ::
  "env \<Rightarrow> int \<Rightarrow> string \<Rightarrow> world \<Rightarrow> (js_error + nat \<times> nat) \<times> world" where
  "runGarbageCollection E now machine w =
     (case acquire E machine ''gc'' now (lock w) of
        (Inl e, l) \<Rightarrow> (Inl e, w\<lparr>lock := l\<rparr>)
      | (Inr u, l) \<Rightarrow>
          (case getAllReferencedHashes (database w) of
             Inl e \<Rightarrow> (Inl e, w\<lparr>lock := release l\<rparr>)
           | Inr activeHashes \<Rightarrow>
               (case prune activeHashes (storage w) of
                  (result, st) \<Rightarrow>
                    (Inr result, w\<lparr>storage := cleanupTemp st, lock := release l\<rparr>))))"

section \<open>A runtime for worked examples\<close>

text \<open>
  Closed examples need the parameters fixed. The stand-ins: a checksum of sixteen hex
  digits for xxHash64; a framing that puts the two gzip magic bytes before the data;
  bytewise comparison for \<^verbatim>\<open>localeCompare\<close>; a matcher that knows patterns of the form
  \<^verbatim>\<open>dir/**\<close> (all paths below \<^verbatim>\<open>dir\<close>) and literal paths; a project matcher that ignores
  the \<^verbatim>\<open>.sync\<close> folder only.
\<close>

definition example_hash :: "string \<Rightarrow> string" where
  "example_hash data = hex32 (length data) @ hex32 (sum_list (map of_char data) mod 4294967296)"

definition example_gzip :: "string \<Rightarrow> string" where
  "example_gzip data = [CHR 0x1f, CHR 0x8b] @ data"

definition example_gunzip :: "string \<Rightarrow> string option" where
  "example_gunzip data = (if isGzipped data then Some (drop 2 data) else None)"

definition example_matches :: "string \<Rightarrow> string \<Rightarrow> bool" where
  "example_matches pat p =
     (if drop (length pat - 3) pat = ''/**''
      then length pat - 2 < length p \<and> take (length pat - 2) p = take (length pat - 2) pat
      else pat = p)"

definition example_ignores :: "string list \<Rightarrow> string \<Rightarrow> bool" where
  "example_ignores patterns p = list_ex (\<lambda>pat. example_matches pat p) patterns"

definition example_projectIgnores :: "string \<Rightarrow> bool" where
  "example_projectIgnores p = (p = ''.sync'' \<or> take 6 p = ''.sync/'')"

definition example_time :: "int \<Rightarrow> string" where
  "example_time t = ''12:00:00''"

definition example_env :: env where
  "example_env = \<lparr>xxhash64 = example_hash, gzip = example_gzip, gunzip = example_gunzip,
     localeCompare = bytewise_compare, ignores = example_ignores,
     projectIgnores = example_projectIgnores, toLocaleTimeString = example_time\<rparr>"

text \<open>
  The shared mount after peer A pushed three files of one byte each, \<^verbatim>\<open>X\<close>, \<^verbatim>\<open>Y\<close> and
  \<^verbatim>\<open>Z\<close>, and the directory of peer B, which holds one file of its own.
\<close>

definition example_project :: Project where
  "example_project = \<lparr>project_id = ''p1'', name = ''Game'', project_createdAt = 0,
     lastSyncAt = None\<rparr>"

definition example_entries :: "FileEntry list" where
  "example_entries =
     [\<lparr>path = ''Content/x.uasset'', hash = ''0000000100000058'', size_bytes = 1,
       modifiedAt = 50, isDirectory = False\<rparr>,
      \<lparr>path = ''Source/y.cpp'', hash = ''0000000100000059'', size_bytes = 1,
       modifiedAt = 50, isDirectory = False\<rparr>,
      \<lparr>path = ''Saved/z.log'', hash = ''000000010000005a'', size_bytes = 1,
       modifiedAt = 50, isDirectory = False\<rparr>]"

definition example_snapshot :: Snapshot where
  "example_snapshot = \<lparr>snapshot_id = ''s1'', projectId = ''p1'', message = ''init'',
     createdAt = 100, createdBy = ''A'',
     manifestHash = ''ef4c6acb3b184e83eefcf4f4f324da4b44b1d03af2cae8e8154aa3295a0e6be4'',
     fileCount = 3, totalSize = 3, branch = ''main''\<rparr>"

definition example_catalog :: catalog where
  "example_catalog = \<lparr>projects = [example_project], snapshots = [example_snapshot],
     branches = [(''p1'', ''main'', 100)],
     file_entries = map (Pair ''s1'') example_entries\<rparr>"

definition empty_catalog :: catalog where
  "empty_catalog = \<lparr>projects = [example_project], snapshots = [], branches = [],
     file_entries = []\<rparr>"

definition example_db :: NetworkSyncDb where
  "example_db = \<lparr>db = Some example_catalog, dbPath = ''/nas/sync.db'', dirty = False, io = []\<rparr>"

definition example_storage :: ContentStorage where
  "example_storage = \<lparr>objects = Some [(''00'', PrefixDir
       [(''0000000100000058'', Blob (example_gzip ''X'')),
        (''0000000100000059'', Blob (example_gzip ''Y'')),
        (''000000010000005a'', Blob (example_gzip ''Z''))])],
     temp = Some []\<rparr>"

definition example_world :: world where
  "example_world = \<lparr>lock = \<lparr>held = False, info = None\<rparr>, database = example_db,
     storage = example_storage,
     local = \<lparr>files = Some [(''Other/k.txt'', \<lparr>content = ''K'', mtimeMs = 10\<rparr>)],
              cache_file = None\<rparr>,
     log = []\<rparr>"

text \<open>The same with the lock held by peer A.\<close>

definition locked_world :: world where
  "locked_world = example_world\<lparr>lock := \<lparr>held = True,
     info = Some \<lparr>machineName = ''A'', lockedAt = 90, operation = ''push''\<rparr>\<rparr>\<rparr>"

text \<open>Peer B with its own, later version of a file of the snapshot.\<close>

definition conflict_world :: world where
  "conflict_world = example_world\<lparr>local :=
     \<lparr>files = Some [(''Content/x.uasset'', \<lparr>content = ''B'', mtimeMs = 200\<rparr>)],
      cache_file = None\<rparr>\<rparr>"

text \<open>A catalog without snapshots.\<close>

definition fresh_world :: world where
  "fresh_world = example_world\<lparr>database := example_db\<lparr>db := Some empty_catalog\<rparr>\<rparr>"

text \<open>The store with a blob that no file entry names.\<close>

definition orphan_world :: world where
  "orphan_world = example_world\<lparr>storage := \<lparr>objects = Some
       [(''00'', PrefixDir
          [(''0000000100000058'', Blob (example_gzip ''X'')),
           (''0000000100000059'', Blob (example_gzip ''Y'')),
           (''000000010000005a'', Blob (example_gzip ''Z''))]),
        (''ff'', PrefixDir [(''ff00000000000000'', Blob ''junk'')])],
     temp = Some []\<rparr>\<rparr>"

section \<open>Properties of the hasher\<close>

lemma length_round256: "length (round256 st kw) = length st"
  by (cases "(st, kw)" rule: round256.cases) (simp_all add: Let_def)

lemma length_foldl_round256: "length (foldl round256 st kws) = length st"
  by (induction kws arbitrary: st) (simp_all add: length_round256)

lemma length_compress: "length (compress hs b) = length hs"
  by (simp add: compress_def Let_def length_foldl_round256)

lemma length_foldl_compress: "length (foldl compress hs bs) = length hs"
  by (induction bs arbitrary: hs) (simp_all add: length_compress)

lemma length_hex32: "length (hex32 w) = 8"
  by (simp add: hex32_def)

lemma length_concat_hex32: "length (concat (map hex32 ws)) = 8 * length ws"
  by (induction ws) (simp_all add: length_hex32)

lemma length_sha256_hex: "length (sha256_hex s) = 64"
  by (simp add: sha256_hex_def sha256_words_def Let_def length_concat_hex32
      length_foldl_compress H256_def)




lemma mset_insort_cmp: "mset (insort_cmp cmp x ys) = add_mset x (mset ys)"
  by (induction ys) simp_all

lemma mset_js_sort: "mset (js_sort cmp xs) = mset xs"
  by (induction xs) (simp_all add: js_sort_def mset_insort_cmp)

lemma set_insort_cmp: "set (insort_cmp cmp x ys) = insert x (set ys)"
  by (induction ys) auto

lemma set_js_sort: "set (js_sort cmp xs) = set xs"
  by (induction xs) (simp_all add: js_sort_def set_insort_cmp)

lemma consistent_total:
  "consistent_on A cmp \<Longrightarrow> x \<in> A \<Longrightarrow> y \<in> A \<Longrightarrow> cmp x y \<le> 0 \<or> cmp y x \<le> 0"
  unfolding consistent_on_def by blast

lemma consistent_trans:
  "consistent_on A cmp \<Longrightarrow> x \<in> A \<Longrightarrow> y \<in> A \<Longrightarrow> z \<in> A \<Longrightarrow>
   cmp x y \<le> 0 \<Longrightarrow> cmp y z \<le> 0 \<Longrightarrow> cmp x z \<le> 0"
  unfolding consistent_on_def by blast

lemma consistent_on_subset: "consistent_on A cmp \<Longrightarrow> B \<subseteq> A \<Longrightarrow> consistent_on B cmp"
  unfolding consistent_on_def by blast

lemma sorted_insort_cmp:
  assumes "consistent_on (insert x (set ys)) cmp"
    and "sorted_wrt (\<lambda>a b. cmp a b \<le> 0) ys"
  shows "sorted_wrt (\<lambda>a b. cmp a b \<le> 0) (insort_cmp cmp x ys)"
  using assms
proof (induction ys)
  case Nil
  then show ?case by simp
next
  case (Cons y ys)
  let ?A = "insert x (set (y # ys))"
  have xA: "x \<in> ?A" and yA: "y \<in> ?A" by simp_all
  have sub: "consistent_on (insert x (set ys)) cmp"
    by (rule consistent_on_subset[OF Cons.prems(1)]) auto
  have tl: "sorted_wrt (\<lambda>a b. cmp a b \<le> 0) ys" and hd: "\<forall>z\<in>set ys. cmp y z \<le> 0"
    using Cons.prems(2) by simp_all
  show ?case
  proof (cases "cmp x y \<le> 0")
    case True
    have "cmp x z \<le> 0" if z: "z \<in> set ys" for z
    proof -
      have zA: "z \<in> ?A" using z by simp
      have "cmp y z \<le> 0" using hd z by blast
      then show ?thesis
        using consistent_trans[OF Cons.prems(1) xA yA zA True] by blast
    qed
    then show ?thesis using True hd tl by simp
  next
    case False
    then have yx: "cmp y x \<le> 0"
      using consistent_total[OF Cons.prems(1) xA yA] by blast
    have ih: "sorted_wrt (\<lambda>a b. cmp a b \<le> 0) (insort_cmp cmp x ys)"
      using Cons.IH[OF sub tl] .
    have "\<forall>z\<in>set (insort_cmp cmp x ys). cmp y z \<le> 0"
      using yx hd by (simp add: set_insort_cmp)
    then show ?thesis using False ih by simp
  qed
qed

lemma sorted_js_sort:
  assumes "consistent_on (set xs) cmp"
  shows "sorted_wrt (\<lambda>a b. cmp a b \<le> 0) (js_sort cmp xs)"
  using assms
proof (induction xs)
  case Nil
  then show ?case by (simp add: js_sort_def)
next
  case (Cons x xs)
  have "consistent_on (set xs) cmp"
    by (rule consistent_on_subset[OF Cons.prems]) auto
  then have s: "sorted_wrt (\<lambda>a b. cmp a b \<le> 0) (js_sort cmp xs)" by (rule Cons.IH)
  have c: "consistent_on (insert x (set (js_sort cmp xs))) cmp"
    using Cons.prems by (simp add: set_js_sort)
  have "sorted_wrt (\<lambda>a b. cmp a b \<le> 0) (insort_cmp cmp x (js_sort cmp xs))"
    using sorted_insort_cmp[OF c s] .
  then show ?case by (simp add: js_sort_def)
qed

lemma sorted_wrt_unique:
  assumes "sorted_wrt R xs" "sorted_wrt R ys" "set xs = set ys" "distinct xs" "distinct ys"
    and "\<And>a b. a \<in> set xs \<Longrightarrow> b \<in> set xs \<Longrightarrow> R a b \<Longrightarrow> R b a \<Longrightarrow> a = b"
  shows "xs = ys"
  using assms
proof (induction xs arbitrary: ys)
  case Nil
  then show ?case by simp
next
  case (Cons x xs)
  from Cons.prems(3) obtain y ys' where ys: "ys = y # ys'" by (cases ys) auto
  have xy: "x = y"
  proof (rule ccontr)
    assume ne: "x \<noteq> y"
    have "x \<in> set ys'" using Cons.prems(3) ys ne by auto
    then have 1: "R y x" using Cons.prems(2) ys by simp
    have yin: "y \<in> set xs" using Cons.prems(3) ys ne by auto
    then have 2: "R x y" using Cons.prems(1) by simp
    have "x = y" using Cons.prems(6)[of x y] 1 2 yin by simp
    with ne show False by simp
  qed
  have seq: "set xs = set ys'"
  proof -
    have "x \<notin> set xs" "y \<notin> set ys'" using Cons.prems(4,5) ys by simp_all
    moreover have "insert x (set xs) = insert y (set ys')" using Cons.prems(3) ys by simp
    ultimately show ?thesis using xy by auto
  qed
  have "xs = ys'"
  proof (rule Cons.IH)
    show "sorted_wrt R xs" using Cons.prems(1) by simp
    show "sorted_wrt R ys'" using Cons.prems(2) ys by simp
    show "set xs = set ys'" by (rule seq)
    show "distinct xs" using Cons.prems(4) by simp
    show "distinct ys'" using Cons.prems(5) ys by simp
    show "\<And>a b. a \<in> set xs \<Longrightarrow> b \<in> set xs \<Longrightarrow> R a b \<Longrightarrow> R b a \<Longrightarrow> a = b"
      using Cons.prems(6) by simp
  qed
  with xy ys show ?case by simp
qed

lemma consistent_on_path:
  assumes "consistent_on (path ` set es) cmp"
  shows "consistent_on (set es) (\<lambda>a b. cmp (path a) (path b))"
  using assms unfolding consistent_on_def by blast

text \<open>
  Claim C3, as the code has it. For every list of entries on whose paths the compare
  function is consistent, \<^verbatim>\<open>computeManifestHash\<close> is the SHA-256, written as 64 hex
  characters, of the lines \<^verbatim>\<open>path:hash\<close> joined by a line feed (a colon within the line, no
  line feed after the last), one line per entry, the entries ordered by \<^verbatim>\<open>localeCompare\<close>
  of their paths.
\<close>

theorem manifest_hash_format:
  assumes "consistent_on (path ` set es) cmp"
  shows "\<exists>ordered. mset ordered = mset es \<and>
           sorted_wrt (\<lambda>a b. cmp (path a) (path b) \<le> 0) ordered \<and>
           computeManifestHash cmp es =
             sha256_hex (js_join [CHR 0x0A] (map (\<lambda>e. path e @ '':'' @ hash e) ordered)) \<and>
           length (computeManifestHash cmp es) = 64"
proof -
  let ?c = "\<lambda>a b. cmp (path a) (path b)"
  have "mset (js_sort ?c es) = mset es" by (rule mset_js_sort)
  moreover have "sorted_wrt (\<lambda>a b. ?c a b \<le> 0) (js_sort ?c es)"
    by (rule sorted_js_sort[OF consistent_on_path[OF assms]])
  moreover have "computeManifestHash cmp es =
      sha256_hex (js_join [CHR 0x0A] (map (\<lambda>e. path e @ '':'' @ hash e) (js_sort ?c es)))"
    by (simp add: computeManifestHash_def hashString_def Let_def)
  moreover have "length (computeManifestHash cmp es) = 64"
    by (simp add: computeManifestHash_def hashString_def Let_def length_sha256_hex)
  ultimately show ?thesis by blast
qed

text \<open>Witness for C3: two entries given in descending order, compared bytewise.\<close>

theorem manifest_hash_format_witness:
  "consistent_on (path ` set [\<lparr>path = ''b'', hash = ''2''\<rparr>, \<lparr>path = ''a'', hash = ''1''\<rparr>])
     bytewise_compare \<and>
   (\<exists>ordered. mset ordered = mset [\<lparr>path = ''b'', hash = ''2''\<rparr>, \<lparr>path = ''a'', hash = ''1''\<rparr>] \<and>
      sorted_wrt (\<lambda>a b. bytewise_compare (path a) (path b) \<le> 0) ordered \<and>
      computeManifestHash bytewise_compare
        [\<lparr>path = ''b'', hash = ''2''\<rparr>, \<lparr>path = ''a'', hash = ''1''\<rparr>] =
        sha256_hex (js_join [CHR 0x0A] (map (\<lambda>e. path e @ '':'' @ hash e) ordered)) \<and>
      length (computeManifestHash bytewise_compare
        [\<lparr>path = ''b'', hash = ''2''\<rparr>, \<lparr>path = ''a'', hash = ''1''\<rparr>]) = 64)"
proof -
  have c: "consistent_on (path ` set [\<lparr>path = ''b'', hash = ''2''\<rparr>, \<lparr>path = ''a'', hash = ''1''\<rparr>])
     bytewise_compare"
    by (simp add: consistent_on_def)
  show ?thesis using c manifest_hash_format[OF c] by blast
qed

text \<open>
  Claim C5, as the code has it. For every list of entries with pairwise distinct paths,
  on which the compare function is a linear order, and every permutation of it,
  \<^verbatim>\<open>computeManifestHash\<close> of the permutation equals \<^verbatim>\<open>computeManifestHash\<close> of the list.
\<close>

theorem manifest_hash_permutation:
  assumes perm: "mset es' = mset es"
    and dist: "distinct (map path es)"
    and lin: "linear_on (path ` set es) cmp"
  shows "computeManifestHash cmp es' = computeManifestHash cmp es"
proof -
  let ?c = "\<lambda>a b. cmp (path a) (path b)"
  let ?R = "\<lambda>a b. ?c a b \<le> 0"
  have cons: "consistent_on (path ` set es) cmp"
    using lin by (simp add: linear_on_def)
  have seteq: "set es' = set es" using perm by (rule mset_eq_setD)
  have s1: "sorted_wrt ?R (js_sort ?c es)"
    by (rule sorted_js_sort[OF consistent_on_path[OF cons]])
  have s2: "sorted_wrt ?R (js_sort ?c es')"
    by (rule sorted_js_sort[OF consistent_on_path]) (simp add: seteq cons)
  have d: "distinct es" using dist by (simp add: distinct_map)
  have inj: "inj_on path (set es)" using dist by (simp add: distinct_map)
  have d1: "distinct (js_sort ?c es)"
    using d mset_eq_imp_distinct_iff[OF mset_js_sort[of ?c es]] by simp
  have "distinct es'" using d mset_eq_imp_distinct_iff[OF perm] by simp
  then have d2: "distinct (js_sort ?c es')"
    using mset_eq_imp_distinct_iff[OF mset_js_sort[of ?c es']] by simp
  have anti: "a = b" if "a \<in> set (js_sort ?c es)" "b \<in> set (js_sort ?c es)"
      "?R a b" "?R b a" for a b
  proof -
    have ab: "a \<in> set es" "b \<in> set es" using that(1,2) by (simp_all add: set_js_sort)
    then have "path a \<in> path ` set es" "path b \<in> path ` set es" by simp_all
    then have "path a = path b" using lin that(3,4) unfolding linear_on_def by blast
    then show ?thesis using inj ab by (simp add: inj_on_def)
  qed
  have "js_sort ?c es = js_sort ?c es'"
    by (rule sorted_wrt_unique[OF s1 s2 _ d1 d2 anti]) (simp_all add: set_js_sort seteq)
  then show ?thesis by (simp add: computeManifestHash_def Let_def)
qed

text \<open>Witness for C5: two entries and their swap.\<close>

theorem manifest_hash_permutation_witness:
  "mset [\<lparr>path = ''a'', hash = ''1''\<rparr>, \<lparr>path = ''b'', hash = ''2''\<rparr>] =
     mset [\<lparr>path = ''b'', hash = ''2''\<rparr>, \<lparr>path = ''a'', hash = ''1''\<rparr>] \<and>
   distinct (map path [\<lparr>path = ''b'', hash = ''2''\<rparr>, \<lparr>path = ''a'', hash = ''1''\<rparr>]) \<and>
   linear_on (path ` set [\<lparr>path = ''b'', hash = ''2''\<rparr>, \<lparr>path = ''a'', hash = ''1''\<rparr>])
     bytewise_compare \<and>
   computeManifestHash bytewise_compare [\<lparr>path = ''a'', hash = ''1''\<rparr>, \<lparr>path = ''b'', hash = ''2''\<rparr>] =
   computeManifestHash bytewise_compare [\<lparr>path = ''b'', hash = ''2''\<rparr>, \<lparr>path = ''a'', hash = ''1''\<rparr>]"
proof -
  let ?E = "[\<lparr>path = ''b'', hash = ''2''\<rparr>, \<lparr>path = ''a'', hash = ''1''\<rparr>]"
  let ?E' = "[\<lparr>path = ''a'', hash = ''1''\<rparr>, \<lparr>path = ''b'', hash = ''2''\<rparr>]"
  have p: "mset ?E' = mset ?E" by simp
  have d: "distinct (map path ?E)" by simp
  have l: "linear_on (path ` set ?E) bytewise_compare"
    by (simp add: linear_on_def consistent_on_def)
  show ?thesis using p d l manifest_hash_permutation[OF p d l] by blast
qed

lemma upt_0_8: "[0..<8] = [0, 1, 2, 3, 4, 5, 6, 7]"
  by (simp add: upt_rec)

subsection \<open>Digests of concrete strings\<close>

lemma replicate_num: "replicate (numeral k) x = x # replicate (pred_numeral k) x"
  by (simp add: numeral_eq_Suc)

lemma schedule_num: "schedule (numeral k) ws =
   schedule (pred_numeral k)
     (add32 (add32 (add32 (sigma1 (ws ! 1)) (ws ! 6)) (sigma0 (ws ! 14))) (ws ! 15) # ws)"
  by (simp add: numeral_eq_Suc)

lemma blocks_num: "blocks (numeral k) bs = take 64 bs # blocks (pred_numeral k) (drop 64 bs)"
  by (simp add: numeral_eq_Suc)

lemmas sha_eval = sha256_hex_def sha256_words_def pad_def be64_def compress_def
  hex32_def hexdigit_def add32_def rotr_def shr_def not32_def Ch_def Maj_def
  Sigma0_def Sigma1_def sigma0_def sigma1_def K256_def H256_def
  replicate_num schedule_num blocks_num upt_0_8

text \<open>
  The digest of the test \<^verbatim>\<open>should correctly hash a buffer\<close> (core/test/basic.test.ts),
  which fixes the model of SHA-256 to the digest the source uses.
\<close>

lemma sha256_hello_world:
  "sha256_hex ''hello world'' =
     ''b94d27b9934d3e08a52e52d7da7dabfac484efe37a5380ee9088f7ace2efcde9''"
  by (simp add: sha_eval)

lemma sha256_colon_record:
  "sha256_hex ''a:h'' = ''34771e4cb4b604a261a1074a34544e593eabde4eecdb28ba24b348a2659bc9b8''"
  by (simp add: sha_eval)

lemma sha256_tab_record:
  "sha256_hex [CHR ''a'', CHR 0x09, CHR ''h'', CHR 0x0A] =
     ''2a5fd2e4d473accf7c5564b23027b0398d1420203441d4e9c28eec395b479b59''"
  by (simp add: sha_eval)

lemma sha256_lines_12:
  "sha256_hex [CHR ''a'', CHR '':'', CHR ''1'', CHR 0x0A, CHR ''a'', CHR '':'', CHR ''2''] =
     ''f10b807386d9b5243095c0d66e7ee9cd18ef3dab3ace2724387d091141c38dd2''"
  by (simp add: sha_eval)

lemma sha256_lines_21:
  "sha256_hex [CHR ''a'', CHR '':'', CHR ''2'', CHR 0x0A, CHR ''a'', CHR '':'', CHR ''1''] =
     ''f9fdb261fad72b7bb0ad2ed4a4f4fcac1c1afe7e61290f641f0a0f56fef680eb''"
  by (simp add: sha_eval)

text \<open>
  Counterexample to C3 as stated: for the single entry with path \<^verbatim>\<open>a\<close> and hash \<^verbatim>\<open>h\<close> the
  source hashes the three bytes \<^verbatim>\<open>a:h\<close>, the specification the four bytes
  \<^verbatim>\<open>a TAB h LF\<close>, and the two digests differ.
\<close>

theorem manifest_hash_format_counterexample:
  "computeManifestHash bytewise_compare [\<lparr>path = ''a'', hash = ''h''\<rparr>] \<noteq>
   spec_manifest_digest [\<lparr>path = ''a'', hash = ''h''\<rparr>]"
proof -
  have "computeManifestHash bytewise_compare [\<lparr>path = ''a'', hash = ''h''\<rparr>] = sha256_hex ''a:h''"
    by (simp add: computeManifestHash_def hashString_def js_sort_def)
  moreover have "spec_manifest_digest [\<lparr>path = ''a'', hash = ''h''\<rparr>] =
      sha256_hex [CHR ''a'', CHR 0x09, CHR ''h'', CHR 0x0A]"
    by (simp add: spec_manifest_digest_def js_sort_def)
  ultimately show ?thesis
    by (simp add: sha256_colon_record sha256_tab_record)
qed

text \<open>
  Counterexample to C5 as stated: two entries with the same path and different hashes.
  The sort is stable and the paths compare equal, so each order of the input is the
  order of the lines, and the two digests differ.
\<close>

theorem manifest_hash_permutation_counterexample:
  "mset [\<lparr>path = ''a'', hash = ''2''\<rparr>, \<lparr>path = ''a'', hash = ''1''\<rparr>] =
     mset [\<lparr>path = ''a'', hash = ''1''\<rparr>, \<lparr>path = ''a'', hash = ''2''\<rparr>] \<and>
   computeManifestHash bytewise_compare [\<lparr>path = ''a'', hash = ''2''\<rparr>, \<lparr>path = ''a'', hash = ''1''\<rparr>] \<noteq>
   computeManifestHash bytewise_compare [\<lparr>path = ''a'', hash = ''1''\<rparr>, \<lparr>path = ''a'', hash = ''2''\<rparr>]"
proof -
  have "computeManifestHash bytewise_compare [\<lparr>path = ''a'', hash = ''1''\<rparr>, \<lparr>path = ''a'', hash = ''2''\<rparr>]
      = sha256_hex [CHR ''a'', CHR '':'', CHR ''1'', CHR 0x0A, CHR ''a'', CHR '':'', CHR ''2'']"
    by (simp add: computeManifestHash_def hashString_def js_sort_def)
  moreover have "computeManifestHash bytewise_compare [\<lparr>path = ''a'', hash = ''2''\<rparr>, \<lparr>path = ''a'', hash = ''1''\<rparr>]
      = sha256_hex [CHR ''a'', CHR '':'', CHR ''2'', CHR 0x0A, CHR ''a'', CHR '':'', CHR ''1'']"
    by (simp add: computeManifestHash_def hashString_def js_sort_def)
  ultimately show ?thesis
    by (simp add: sha256_lines_12 sha256_lines_21)
qed

section \<open>Properties of the conflict copy\<close>

lemma conflictPath_simple: "conflictPath ''a.txt'' = ''a.local.txt''"
  by (simp add: conflictPath_def)

text \<open>
  Claim C7 at a failing input. For the conflicting path \<^verbatim>\<open>a.txt2.txt\<close> the extension is
  \<^verbatim>\<open>.txt\<close>; \<^verbatim>\<open>replace\<close> removes its first occurrence, the one inside \<^verbatim>\<open>.txt2\<close>, so the local
  file is renamed to \<^verbatim>\<open>a2.txt.local.txt\<close>, where the claim has \<^verbatim>\<open>a.txt2.local.txt\<close>.
\<close>

theorem conflictPath_replaces_first_occurrence:
  "conflictPath ''a.txt2.txt'' = ''a2.txt.local.txt'' \<and>
   spec_conflict_path ''a.txt2.txt'' = ''a.txt2.local.txt'' \<and>
   conflictPath ''a.txt2.txt'' \<noteq> spec_conflict_path ''a.txt2.txt''"
  by (simp add: conflictPath_def spec_conflict_path_def)

section \<open>Properties of the catalog\<close>

lemma io_save: "\<exists>ops. io (save d) = io d @ ops \<and> list_all (writes_in_place (dbPath d)) ops"
  by (cases "db d") (simp_all add: save_def)

lemma dbPath_save: "dbPath (save d) = dbPath d"
  by (cases "db d") (simp_all add: save_def)

lemma db_save: "db (save d) = db d"
  by (cases "db d") (simp_all add: save_def)

lemma io_save_dirty:
  "db d = Some c \<Longrightarrow> io (save (d\<lparr>dirty := True\<rparr>)) = io d @ [WriteFile (dbPath d) c]"
  by (simp add: save_def)






section \<open>Properties of the object store\<close>

lemma map_of_update_same: "map_of (AList.update k v al) k = Some v"
  by (simp add: update_conv')



subsection \<open>Pruning\<close>

lemma map_of_prune_files:
  "map_of (fst (prune_files A ns dir acc)) n =
     (if n \<in> set ns \<and> n \<notin> A \<and> (\<exists>d. map_of dir n = Some (Blob d)) then None else map_of dir n)"
proof (induction ns arbitrary: dir acc)
  case Nil
  then show ?case by simp
next
  case (Cons f rest)
  obtain cnt sz where acc: "acc = (cnt, sz)" by (cases acc)
  show ?case
  proof (cases "f \<notin> A \<and> (\<exists>d. map_of dir f = Some (Blob d))")
    case True
    then obtain d where d: "map_of dir f = Some (Blob d)" and fA: "f \<notin> A" by auto
    have "map_of (fst (prune_files A (f # rest) dir acc)) n =
          map_of (fst (prune_files A rest (AList.delete f dir) (cnt + 1, sz + length d))) n"
      using d fA acc by simp
    also have "\<dots> = (if n \<in> set rest \<and> n \<notin> A \<and> (\<exists>d. map_of (AList.delete f dir) n = Some (Blob d))
                      then None else map_of (AList.delete f dir) n)"
      by (rule Cons.IH)
    also have "\<dots> = (if n \<in> set (f # rest) \<and> n \<notin> A \<and> (\<exists>d. map_of dir n = Some (Blob d))
                      then None else map_of dir n)"
      using d fA by (auto simp: delete_conv')
    finally show ?thesis .
  next
    case False
    have "map_of (fst (prune_files A (f # rest) dir acc)) n =
          map_of (fst (prune_files A rest dir (cnt, sz))) n"
      using False acc by (auto split: option.splits dir_entry.splits)
    also have "\<dots> = (if n \<in> set rest \<and> n \<notin> A \<and> (\<exists>d. map_of dir n = Some (Blob d))
                      then None else map_of dir n)"
      by (rule Cons.IH)
    also have "\<dots> = (if n \<in> set (f # rest) \<and> n \<notin> A \<and> (\<exists>d. map_of dir n = Some (Blob d))
                      then None else map_of dir n)"
      using False by auto
    finally show ?thesis .
  qed
qed

text \<open>What an object path names in a listing of \<^verbatim>\<open>objects/\<close>.\<close>

lemma map_of_readdir:
  "map_of (fst (prune_files A (map fst dir) dir acc)) n =
     (case map_of dir n of Some (Blob d) \<Rightarrow> if n \<in> A then Some (Blob d) else None | x \<Rightarrow> x)"
proof -
  have "n \<in> set (map fst dir)" if "map_of dir n = Some v" for v
    using that by (metis map_of_eq_None_iff option.distinct(1) set_map)
  then show ?thesis
    by (auto simp: map_of_prune_files split: option.splits dir_entry.splits)
qed

lemma object_at_prune_prefixes:
  assumes "distinct ps" and "\<forall>p\<in>set ps. map_of objs p \<noteq> None"
  shows "object_at (fst (prune_prefixes A ps objs acc)) h =
     (if take 2 h \<in> set ps
      then (case object_at objs h of
              Some (Blob d) \<Rightarrow> if h \<in> A then Some (Blob d) else None
            | x \<Rightarrow> x)
      else object_at objs h)"
  using assms
proof (induction ps arbitrary: objs acc)
  case Nil
  then show ?case by simp
next
  case (Cons p rest)
  from Cons.prems obtain e where e: "map_of objs p = Some e" by auto
  have dr: "distinct rest" and pn: "p \<notin> set rest" using Cons.prems(1) by simp_all
  show ?case
  proof (cases e)
    case (PlainFile x)
    have step: "prune_prefixes A (p # rest) objs acc = prune_prefixes A rest objs acc"
      using e PlainFile by simp
    have rest: "\<forall>q\<in>set rest. map_of objs q \<noteq> None" using Cons.prems(2) by simp
    have nb: "object_at objs h = None" if "take 2 h = p"
      using that e PlainFile by (simp add: object_at_def)
    show ?thesis
      unfolding step Cons.IH[OF dr rest] using nb pn by auto
  next
    case (PrefixDir dir)
    obtain remaining acc' where pf: "prune_files A (map fst dir) dir acc = (remaining, acc')"
    by (metis surj_pair)
    let ?objs2 = "if remaining = [] then AList.delete p objs
                  else AList.update p (PrefixDir remaining) objs"
    have step: "prune_prefixes A (p # rest) objs acc = prune_prefixes A rest ?objs2 acc'"
      using e PrefixDir pf by simp
    have other: "map_of ?objs2 q = map_of objs q" if "q \<noteq> p" for q
      using that by (simp add: delete_conv' update_conv')
    have rest: "\<forall>q\<in>set rest. map_of ?objs2 q \<noteq> None"
    proof
      fix q assume q: "q \<in> set rest"
      then have "q \<noteq> p" using pn by auto
      then show "map_of ?objs2 q \<noteq> None" using other[of q] Cons.prems(2) q by simp
    qed
    have rem: "map_of remaining n =
        (case map_of dir n of Some (Blob d) \<Rightarrow> if n \<in> A then Some (Blob d) else None | x \<Rightarrow> x)"
      for n
      using map_of_readdir[of A dir acc n] pf by simp
    have at_p: "object_at ?objs2 h =
        (case object_at objs h of Some (Blob d) \<Rightarrow> if h \<in> A then Some (Blob d) else None | x \<Rightarrow> x)"
      if "take 2 h = p"
    proof (cases "remaining = []")
      case True
      then have "map_of remaining h = None" by simp
      then show ?thesis
        using that True e PrefixDir rem[of h] by (simp add: object_at_def delete_conv')
    next
      case False
      then show ?thesis
        using that e PrefixDir rem[of h] by (simp add: object_at_def update_conv')
    qed
    have at_q: "object_at ?objs2 h = object_at objs h" if "take 2 h \<noteq> p"
      using that other[of "take 2 h"] by (simp add: object_at_def)
    show ?thesis
    proof (cases "take 2 h = p")
      case True
      then have "take 2 h \<notin> set rest" using pn by simp
      then show ?thesis
        unfolding step Cons.IH[OF dr rest] using at_p[OF True] True by simp
    next
      case False
      then show ?thesis
        unfolding step Cons.IH[OF dr rest] using at_q[OF False] by simp
    qed
  qed
qed

lemma lookup_object_prune:
  assumes "listed_once st"
  shows "lookup_object (snd (prune A st)) h =
     (case lookup_object st h of
        Some (Blob d) \<Rightarrow> if h \<in> A then Some (Blob d) else None
      | x \<Rightarrow> x)"
proof (cases "objects st")
  case None
  then show ?thesis by (simp add: prune_def lookup_object_def)
next
  case (Some objs)
  have d: "distinct (map fst objs)" using assms Some by (simp add: listed_once_def)
  have m: "\<forall>p\<in>set (map fst objs). map_of objs p \<noteq> None"
    by (auto simp: map_of_eq_None_iff)
  obtain objs' acc where pp: "prune_prefixes A (map fst objs) objs (0, 0) = (objs', acc)"
    by (metis surj_pair)
  have "object_at objs' h =
     (if take 2 h \<in> set (map fst objs)
      then (case object_at objs h of
              Some (Blob d) \<Rightarrow> if h \<in> A then Some (Blob d) else None
            | x \<Rightarrow> x)
      else object_at objs h)"
    using object_at_prune_prefixes[OF d m, of A "(0, 0)" h] pp by simp
  moreover have "object_at objs h = None" if "take 2 h \<notin> set (map fst objs)"
  proof -
    from that have "map_of objs (take 2 h) = None" by (simp add: map_of_eq_None_iff)
    then show ?thesis by (simp add: object_at_def)
  qed
  ultimately have "object_at objs' h =
     (case object_at objs h of
        Some (Blob d) \<Rightarrow> if h \<in> A then Some (Blob d) else None
      | x \<Rightarrow> x)"
    by auto
  then show ?thesis using Some pp by (simp add: prune_def lookup_object_def)
qed

lemma blob_present_prune:
  assumes "listed_once st"
  shows "blob_present (snd (prune A st)) h \<longleftrightarrow> blob_present st h \<and> h \<in> A"
  unfolding blob_present_def lookup_object_prune[OF assms]
  by (auto split: option.splits dir_entry.splits)

lemma lookup_object_cleanupTemp: "lookup_object (cleanupTemp st) h = lookup_object st h"
  by (simp add: cleanupTemp_def lookup_object_def)

text \<open>
  Claim C9. After a garbage collection that ran (the lock was free, the catalog loaded),
  a blob is present in the object store if and only if a row of \<^verbatim>\<open>file_entries\<close> has its
  hash, given that every blob such a row names was present before.
\<close>

theorem gc_keeps_exactly_the_referenced_blobs:
  assumes "\<not> held (lock w)" and "db (database w) = Some c" and "listed_once (storage w)"
    and "\<forall>h \<in> set (map (\<lambda>(s, r). hash r) (file_entries c)). blob_present (storage w) h"
  shows "\<exists>result w'. runGarbageCollection E now machine w = (Inr result, w') \<and>
           \<not> held (lock w') \<and>
           (\<forall>h. blob_present (storage w') h \<longleftrightarrow>
                  h \<in> set (map (\<lambda>(s, r). hash r) (file_entries c)))"
proof -
  let ?A = "set (map (\<lambda>(s, r). hash r) (file_entries c))"
  obtain result st where pr: "prune ?A (storage w) = (result, st)"
    by (metis surj_pair)
  let ?w' = "w\<lparr>storage := cleanupTemp st,
               lock := release (lock w\<lparr>held := True,
                 info := Some \<lparr>machineName = machine, lockedAt = now, operation = ''gc''\<rparr>\<rparr>)\<rparr>"
  have run: "runGarbageCollection E now machine w = (Inr result, ?w')"
    using assms(1,2) pr
    by (simp add: runGarbageCollection_def acquire_def getAllReferencedHashes_def)
  have "blob_present (storage ?w') h \<longleftrightarrow> h \<in> ?A" for h
  proof -
    have "blob_present (storage ?w') h \<longleftrightarrow> blob_present st h"
      by (simp add: blob_present_def lookup_object_cleanupTemp)
    also have "\<dots> \<longleftrightarrow> blob_present (storage w) h \<and> h \<in> ?A"
      using blob_present_prune[OF assms(3), of ?A h] pr by simp
    also have "\<dots> \<longleftrightarrow> h \<in> ?A" using assms(4) by blast
    finally show ?thesis .
  qed
  moreover have "\<not> held (lock ?w')" by (simp add: release_def)
  ultimately show ?thesis using run by blast
qed

section \<open>Properties of the engine\<close>

subsection \<open>Maps of the runtime\<close>

lemma set_update_subset: "set (AList.update k v al) \<subseteq> insert (k, v) (set al)"
  by (induction al) auto

lemma set_foldl_update:
  "set (foldl (\<lambda>m (k, v). AList.update k v m) m ps) \<subseteq> set m \<union> set ps"
proof (induction ps arbitrary: m)
  case Nil
  then show ?case by simp
next
  case (Cons kv ps)
  obtain k v where kv: "kv = (k, v)" by (cases kv)
  have "set (foldl (\<lambda>m (k, v). AList.update k v m) (AList.update k v m) ps)
        \<subseteq> set (AList.update k v m) \<union> set ps"
    by (rule Cons.IH)
  also have "\<dots> \<subseteq> insert (k, v) (set m) \<union> set ps"
    using set_update_subset[of k v m] by auto
  finally show ?case using kv by auto
qed

lemma set_js_Map_subset: "set (js_Map ps) \<subseteq> set ps"
  using set_foldl_update[of "[]" ps] by (simp add: js_Map_def)

lemma keys_foldl_update:
  "fst ` set (foldl (\<lambda>m (k, v). AList.update k v m) m ps) = fst ` set m \<union> fst ` set ps"
proof (induction ps arbitrary: m)
  case Nil
  then show ?case by simp
next
  case (Cons kv ps)
  obtain k v where kv: "kv = (k, v)" by (cases kv)
  show ?case using Cons.IH[of "AList.update k v m"] kv by (auto simp: dom_update)
qed

lemma keys_js_Map: "fst ` set (js_Map ps) = fst ` set ps"
  using keys_foldl_update[of "[]" ps] by (simp add: js_Map_def)

lemma js_Map_key_is_path:
  assumes "(p, e) \<in> set (js_Map (map (\<lambda>e. (path e, e)) es))"
  shows "p = path e"
  using assms set_js_Map_subset[of "map (\<lambda>e. (path e, e)) es"] by auto

subsection \<open>The synchronised directory\<close>

lemma local_files_set_local_files [simp]: "local_files (set_local_files fl w) = fl"
  by (simp add: local_files_def set_local_files_def)

lemma fields_set_local_files [simp]:
  "log (set_local_files fl w) = log w"
  "storage (set_local_files fl w) = storage w"
  "database (set_local_files fl w) = database w"
  "lock (set_local_files fl w) = lock w"
  by (simp_all add: set_local_files_def)

lemma local_files_log_update [simp]: "local_files (w\<lparr>log := l\<rparr>) = local_files w"
  by (simp add: local_files_def)

lemma local_files_lock_update [simp]: "local_files (w\<lparr>lock := l\<rparr>) = local_files w"
  by (simp add: local_files_def)

lemma download_file_fields:
  "log (download_file E now f w) = log w @ [Download (hash f) (path f)]"
  "storage (download_file E now f w) = storage w"
  "database (download_file E now f w) = database w"
  "lock (download_file E now f w) = lock w"
  by (simp_all add: download_file_def Let_def split: dest_effect.splits)

lemma download_all_fields:
  "log (snd (download_all E now fs b w)) = log w @ map (\<lambda>f. Download (hash f) (path f)) fs"
  "storage (snd (download_all E now fs b w)) = storage w"
  "database (snd (download_all E now fs b w)) = database w"
  "lock (snd (download_all E now fs b w)) = lock w"
  by (induction fs arbitrary: b w) (simp_all add: download_file_fields)

lemma delete_all_fields:
  "log (delete_all ps w) = log w @ map DeleteLocal ps"
  "storage (delete_all ps w) = storage w"
  "database (delete_all ps w) = database w"
  "lock (delete_all ps w) = lock w"
  by (induction ps arbitrary: w) simp_all

lemma map_of_delete_all:
  "map_of (local_files (delete_all ps w)) p =
     (if p \<in> set ps then None else map_of (local_files w) p)"
  by (induction ps arbitrary: w) (simp_all add: delete_conv')

lemma rename_local_fields:
  assumes "rename_local src dst w = (r, w')"
  shows "log w' = log w @ [RenameLocal src dst]" "storage w' = storage w"
    "database w' = database w" "lock w' = lock w"
  using assms by (auto simp: rename_local_def Let_def split: option.splits)

lemma apply_resolutions_props:
  assumes "apply_resolutions rm cs dl w = (r, w')"
  shows "(\<forall>h p. Download h p \<in> set (log w') \<longrightarrow> Download h p \<in> set (log w)) \<and>
         storage w' = storage w \<and> database w' = database w \<and> lock w' = lock w \<and>
         (\<forall>dl'. r = Inr dl' \<longrightarrow> set dl' \<subseteq> set dl \<union> remoteEntry ` set cs)"
  using assms
proof (induction cs arbitrary: dl w)
  case Nil
  then show ?case by auto
next
  case (Cons c cs)
  show ?case
  proof (cases "map_of rm (cpath c)")
    case None
    with Cons.prems have "apply_resolutions rm cs dl w = (r, w')" by simp
    from Cons.IH[OF this] show ?thesis by auto
  next
    case (Some res)
    show ?thesis
    proof (cases res)
      case keep_local
      with Cons.prems Some have "apply_resolutions rm cs dl w = (r, w')" by simp
      from Cons.IH[OF this] show ?thesis by auto
    next
      case keep_remote
      with Cons.prems Some have "apply_resolutions rm cs (dl @ [remoteEntry c]) w = (r, w')"
        by simp
      from Cons.IH[OF this] show ?thesis by auto
    next
      case keep_both
      obtain rr w1 where rn: "rename_local (cpath c) (conflictPath (cpath c)) w = (rr, w1)"
        by (metis surj_pair)
      note f = rename_local_fields[OF rn]
      show ?thesis
      proof (cases rr)
        case (Inl e)
        with Cons.prems Some keep_both rn have "r = Inl e" "w' = w1" by simp_all
        with f show ?thesis by auto
      next
        case (Inr u)
        with Cons.prems Some keep_both rn
        have "apply_resolutions rm cs (dl @ [remoteEntry c]) w1 = (r, w')" by simp
        from Cons.IH[OF this] f show ?thesis by auto
      qed
    qed
  qed
qed

subsection \<open>The plan\<close>

lemma pull_classify_props:
  assumes "pull_classify sel lm rm (dl0, cs0) = (dl, cs)"
  shows "(\<forall>f\<in>set dl. f \<in> set dl0 \<or> (\<exists>p. (p, f) \<in> set rm \<and> \<not> skipped sel p)) \<and>
         (\<forall>c\<in>set cs. c \<in> set cs0 \<or> ((cpath c, remoteEntry c) \<in> set rm \<and> \<not> skipped sel (cpath c)))"
  using assms
proof (induction rm arbitrary: dl0 cs0)
  case Nil
  then show ?case by simp
next
  case (Cons pe rm)
  obtain p e where pe: "pe = (p, e)" by (cases pe)
  show ?case
  proof (cases "skipped sel p")
    case True
    with Cons.prems pe have "pull_classify sel lm rm (dl0, cs0) = (dl, cs)" by simp
    from Cons.IH[OF this] show ?thesis by auto
  next
    case False
    show ?thesis
    proof (cases "map_of lm p")
      case None
      with Cons.prems pe False have "pull_classify sel lm rm (dl0 @ [e], cs0) = (dl, cs)" by simp
      from Cons.IH[OF this] show ?thesis using pe False by auto
    next
      case (Some l)
      show ?thesis
      proof (cases "hash l \<noteq> hash e")
        case same: False
        with Cons.prems pe False Some have "pull_classify sel lm rm (dl0, cs0) = (dl, cs)" by simp
        from Cons.IH[OF this] show ?thesis by auto
      next
        case diff: True
        show ?thesis
        proof (cases "modifiedAt l > modifiedAt e")
          case True
          let ?c = "\<lparr>cpath = p, localEntry = l, remoteEntry = e,
                     localModifiedAt = modifiedAt l, remoteModifiedAt = modifiedAt e\<rparr>"
          from Cons.prems pe False Some diff True
          have "pull_classify sel lm rm (dl0, cs0 @ [?c]) = (dl, cs)" by simp
          from Cons.IH[OF this] show ?thesis using pe False by auto
        next
          case older: False
          with Cons.prems pe False Some diff
          have "pull_classify sel lm rm (dl0 @ [e], cs0) = (dl, cs)" by simp
          from Cons.IH[OF this] show ?thesis using pe False by auto
        qed
      qed
    qed
  qed
qed

lemma set_files_to_delete:
  "set (files_to_delete sel lm rm) = {p \<in> fst ` set lm. map_of rm p = None \<or> skipped sel p}"
  by (auto simp: files_to_delete_def)

lemma pull_plan_selective:
  assumes "pull_plan E (Some ps) localEntries remoteEntries = (dl, cs, del)" and "ps \<noteq> []"
  shows "(\<forall>f\<in>set dl. ignores E ps (path f)) \<and>
         (\<forall>c\<in>set cs. ignores E ps (path (remoteEntry c))) \<and>
         (\<forall>p\<in>path ` set localEntries. \<not> ignores E ps p \<longrightarrow> p \<in> set del)"
proof -
  let ?lm = "js_Map (map (\<lambda>e. (path e, e)) localEntries)"
  let ?rm = "js_Map (map (\<lambda>e. (path e, e)) remoteEntries)"
  let ?sel = "Some (ignores E ps)"
  have sel: "selectiveMatcher E (Some ps) = ?sel" using assms(2) by (simp add: selectiveMatcher_def)
  have pc: "pull_classify ?sel ?lm ?rm ([], []) = (dl, cs)" and del: "del = files_to_delete ?sel ?lm ?rm"
    using assms(1) sel by (simp_all add: pull_plan_def Let_def prod_eq_iff)
  from pull_classify_props[OF pc]
  have a: "\<forall>f\<in>set dl. \<exists>p. (p, f) \<in> set ?rm \<and> \<not> skipped ?sel p"
    and b: "\<forall>c\<in>set cs. (cpath c, remoteEntry c) \<in> set ?rm \<and> \<not> skipped ?sel (cpath c)"
    by auto
  have 1: "\<forall>f\<in>set dl. ignores E ps (path f)"
  proof
    fix f assume "f \<in> set dl"
    with a obtain p where p: "(p, f) \<in> set ?rm" "\<not> skipped ?sel p" by blast
    from js_Map_key_is_path[OF p(1)] p(2) show "ignores E ps (path f)" by (simp add: skipped_def)
  qed
  have 2: "\<forall>c\<in>set cs. ignores E ps (path (remoteEntry c))"
  proof
    fix c assume "c \<in> set cs"
    with b have p: "(cpath c, remoteEntry c) \<in> set ?rm" "\<not> skipped ?sel (cpath c)" by auto
    from js_Map_key_is_path[OF p(1)] p(2) show "ignores E ps (path (remoteEntry c))"
      by (simp add: skipped_def)
  qed
  have keys: "fst ` set ?lm = path ` set localEntries"
    by (simp add: keys_js_Map image_image)
  have 3: "\<forall>p\<in>path ` set localEntries. \<not> ignores E ps p \<longrightarrow> p \<in> set del"
    unfolding del set_files_to_delete keys by (simp add: skipped_def)
  from 1 2 3 show ?thesis by blast
qed

lemma restore_plan_selective:
  assumes "restore_plan E (Some ps) localEntries remoteEntries = (dl, del)" and "ps \<noteq> []"
  shows "(\<forall>f\<in>set dl. ignores E ps (path f)) \<and>
         (\<forall>p\<in>path ` set localEntries. \<not> ignores E ps p \<longrightarrow> p \<in> set del)"
proof -
  let ?lm = "js_Map (map (\<lambda>e. (path e, e)) localEntries)"
  let ?rm = "js_Map (map (\<lambda>e. (path e, e)) remoteEntries)"
  let ?sel = "Some (ignores E ps)"
  have sel: "selectiveMatcher E (Some ps) = ?sel" using assms(2) by (simp add: selectiveMatcher_def)
  have dl: "dl = restore_classify ?sel ?lm ?rm" and del: "del = files_to_delete ?sel ?lm ?rm"
    using assms(1) sel by (simp_all add: restore_plan_def Let_def)
  have 1: "\<forall>f\<in>set dl. ignores E ps (path f)"
  proof
    fix f assume "f \<in> set dl"
    then obtain p where p: "(p, f) \<in> set ?rm" "\<not> skipped ?sel p"
      unfolding dl restore_classify_def by auto
    from js_Map_key_is_path[OF p(1)] p(2) show "ignores E ps (path f)" by (simp add: skipped_def)
  qed
  have keys: "fst ` set ?lm = path ` set localEntries"
    by (simp add: keys_js_Map image_image)
  have 3: "\<forall>p\<in>path ` set localEntries. \<not> ignores E ps p \<longrightarrow> p \<in> set del"
    unfolding del set_files_to_delete keys by (simp add: skipped_def)
  from 1 3 show ?thesis by blast
qed

subsection \<open>The scan\<close>

lemma path_processFile: "path (processFile E cache (p, f)) = p"
  by (simp add: processFile_def Let_def)

lemma scan_local_Inl:
  assumes "scan_local E w = (Inl e, w1)"
  shows "w1 = w"
  using assms
  by (cases "files (local w)") (auto simp: scan_local_def scanDirectory_def Let_def)

lemma scan_local_Inr:
  assumes "scan_local E w = (Inr sr, w1)"
  shows "local_files w1 = local_files w" "log w1 = log w" "storage w1 = storage w"
    "database w1 = database w" "lock w1 = lock w" "files (local w1) = files (local w)"
    "path ` set (entries sr) = {p \<in> fst ` set (local_files w). walk_visits E p}"
proof -
  from assms obtain fl where fl: "files (local w) = Some fl"
    by (cases "files (local w)") (auto simp: scan_local_def scanDirectory_def)
  let ?cache = "case cache_file (local w) of None \<Rightarrow> [] | Some c \<Rightarrow> c"
  have sr: "entries sr = map (processFile E ?cache) (filter (\<lambda>(p, f). walk_visits E p) fl)"
    and w1: "w1 = w\<lparr>local := (local w)\<lparr>cache_file := cache_file (local w1)\<rparr>\<rparr>"
    using assms fl by (auto simp: scan_local_def scanDirectory_def Let_def)
  show "local_files w1 = local_files w" by (subst w1) (simp add: local_files_def)
  show "log w1 = log w" by (subst w1) simp
  show "storage w1 = storage w" by (subst w1) simp
  show "database w1 = database w" by (subst w1) simp
  show "lock w1 = lock w" by (subst w1) simp
  show "files (local w1) = files (local w)" by (subst w1) simp
  have "path ` set (entries sr) = fst ` set (filter (\<lambda>(p, f). walk_visits E p) fl)"
    unfolding sr by (force simp: image_iff path_processFile)
  also have "\<dots> = {p \<in> fst ` set fl. walk_visits E p}" by force
  finally show "path ` set (entries sr) = {p \<in> fst ` set (local_files w). walk_visits E p}"
    using fl by (simp add: local_files_def)
qed

subsection \<open>Download and delete\<close>

lemma transfer_props:
  assumes "transfer E now dl del w = (r, w')"
  shows "success r" "error r = None" "conflicts r = []"
    "log w' = log w @ map (\<lambda>f. Download (hash f) (path f)) dl @ map DeleteLocal del"
    "\<forall>p\<in>set del. map_of (local_files w') p = None"
    "lock w' = lock w" "database w' = database w" "storage w' = storage w"
proof -
  obtain b w1 where da: "download_all E now dl 0 w = (b, w1)" by (metis surj_pair)
  have w1: "w1 = snd (download_all E now dl 0 w)" using da by simp
  have r: "r = \<lparr>success = True, filesDeleted = length del, bytesTransferred = b, error = None,
              filesDownloaded = length dl, conflicts = []\<rparr>" and w': "w' = delete_all del w1"
    using assms da by (simp_all add: transfer_def)
  show "success r" "error r = None" "conflicts r = []" by (simp_all add: r)
  show "log w' = log w @ map (\<lambda>f. Download (hash f) (path f)) dl @ map DeleteLocal del"
    by (simp add: w' w1 delete_all_fields download_all_fields)
  show "\<forall>p\<in>set del. map_of (local_files w') p = None"
    by (simp add: w' map_of_delete_all)
  show "lock w' = lock w" "database w' = database w" "storage w' = storage w"
    by (simp_all add: w' w1 delete_all_fields download_all_fields)
qed

subsection \<open>Selective sync\<close>

lemma transfer_selective:
  assumes tr: "transfer E now dl del w2 = (r, w3)"
    and dl: "\<forall>f\<in>set dl. ignores E ps (path f)"
    and del: "\<forall>p\<in>A. \<not> ignores E ps p \<longrightarrow> p \<in> set del"
    and lg: "\<forall>h p. Download h p \<in> set (log w2) \<longrightarrow> Download h p \<in> set (log w)"
  shows "(\<forall>h p. Download h p \<in> set (log w3) \<longrightarrow> Download h p \<in> set (log w) \<or> ignores E ps p) \<and>
         (\<forall>p\<in>A. \<not> ignores E ps p \<longrightarrow>
            map_of (local_files w3) p = None \<and> DeleteLocal p \<in> set (log w3))"
proof -
  note t = transfer_props[OF tr]
  have a: "Download h p \<in> set (log w) \<or> ignores E ps p" if "Download h p \<in> set (log w3)" for h p
  proof -
    from that t(4) have "Download h p \<in> set (log w2) \<or>
        Download h p \<in> set (map (\<lambda>f. Download (hash f) (path f)) dl)"
      by auto
    then show ?thesis
    proof
      assume "Download h p \<in> set (log w2)"
      with lg show ?thesis by blast
    next
      assume "Download h p \<in> set (map (\<lambda>f. Download (hash f) (path f)) dl)"
      then obtain f where "f \<in> set dl" "p = path f" by auto
      with dl show ?thesis by blast
    qed
  qed
  have b: "map_of (local_files w3) p = None \<and> DeleteLocal p \<in> set (log w3)"
    if "p \<in> A" "\<not> ignores E ps p" for p
  proof -
    from that del have "p \<in> set del" by blast
    with t(4,5) show ?thesis by auto
  qed
  from a b show ?thesis by blast
qed

lemma pull_body_selective:
  assumes pb: "pull_body E now project br res (Some ps) w = (out, w')" and ne: "ps \<noteq> []"
  shows "(\<forall>h p. Download h p \<in> set (log w') \<longrightarrow> Download h p \<in> set (log w) \<or> ignores E ps p) \<and>
         (\<forall>r s. out = Inr r \<and> success r \<and>
                getLatestSnapshot (project_id project) br (database w) = Inr (Some s) \<longrightarrow>
            (\<forall>p\<in>{p \<in> fst ` set (local_files w). walk_visits E p}. \<not> ignores E ps p \<longrightarrow>
               map_of (local_files w') p = None \<and> DeleteLocal p \<in> set (log w')))"
proof -
  obtain sc w1 where sc: "scan_local E w = (sc, w1)" by (metis surj_pair)
  show ?thesis
  proof (cases sc)
    case (Inl e)
    with pb sc have "out = Inl e" "w' = w1" by (simp_all add: pull_body_def)
    moreover have "w1 = w" using sc Inl scan_local_Inl by blast
    ultimately show ?thesis by simp
  next
    case (Inr sr)
    note s = scan_local_Inr[OF sc[unfolded Inr]]
    show ?thesis
    proof (cases "getLatestSnapshot (project_id project) br (database w)")
      case (Inl e)
      with pb sc Inr s(4) have "out = Inl e" "w' = w1" by (simp_all add: pull_body_def)
      with s(2) show ?thesis by simp
    next
      case latest: (Inr latestSnapshot)
      show ?thesis
      proof (cases latestSnapshot)
        case None
        with pb sc Inr s(4) latest have "w' = w1" by (simp add: pull_body_def)
        with s(2) latest None show ?thesis by simp
      next
        case (Some snap)
        show ?thesis
        proof (cases "getSnapshotEntries (snapshot_id snap) (database w)")
          case (Inl e)
          with pb sc Inr s(4) latest Some have "out = Inl e" "w' = w1"
            by (simp_all add: pull_body_def)
          with s(2) show ?thesis by simp
        next
          case entries: (Inr remoteEntries)
          obtain dl cs del where plan:
            "pull_plan E (Some ps) (entries sr) remoteEntries = (dl, cs, del)"
            by (metis surj_pair)
          note pl = pull_plan_selective[OF plan ne]
          have del: "\<forall>p\<in>{p \<in> fst ` set (local_files w). walk_visits E p}.
                       \<not> ignores E ps p \<longrightarrow> p \<in> set del"
            using pl s(7) by blast
          show ?thesis
          proof (cases "length cs > 0 \<and> res = None")
            case True
            with pb sc Inr s(4) latest Some entries plan
            have "out = Inr \<lparr>success = False, filesDeleted = 0, bytesTransferred = 0,
                     error = None, filesDownloaded = 0, conflicts = cs\<rparr>" "w' = w1"
              by (simp_all add: pull_body_def)
            with s(2) show ?thesis by simp
          next
            case False
            then have nc: "\<not> (cs \<noteq> [] \<and> res = None)" by simp
            obtain rr w2 where rr: "(case res of None \<Rightarrow> (Inr dl, w1)
                 | Some rs \<Rightarrow> apply_resolutions (js_Map rs) cs dl w1) = (rr, w2)"
              by (metis surj_pair)
            have lg: "\<forall>h p. Download h p \<in> set (log w2) \<longrightarrow> Download h p \<in> set (log w)"
              and sub: "\<forall>dl'. rr = Inr dl' \<longrightarrow> set dl' \<subseteq> set dl \<union> remoteEntry ` set cs"
            proof -
              show "\<forall>h p. Download h p \<in> set (log w2) \<longrightarrow> Download h p \<in> set (log w)"
              proof (cases res)
                case None
                with rr s(2) show ?thesis by simp
              next
                case (Some rs)
                with rr have "apply_resolutions (js_Map rs) cs dl w1 = (rr, w2)" by simp
                from apply_resolutions_props[OF this] s(2) show ?thesis by simp
              qed
              show "\<forall>dl'. rr = Inr dl' \<longrightarrow> set dl' \<subseteq> set dl \<union> remoteEntry ` set cs"
              proof (cases res)
                case None
                with rr show ?thesis by auto
              next
                case (Some rs)
                with rr have "apply_resolutions (js_Map rs) cs dl w1 = (rr, w2)" by simp
                from apply_resolutions_props[OF this] show ?thesis by simp
              qed
            qed
            show ?thesis
            proof (cases rr)
              case (Inl e)
              with pb sc Inr s(4) latest Some entries plan rr
              have "out = Inl e" "w' = w2" by (simp_all add: pull_body_def nc)
              with lg show ?thesis by simp
            next
              case dls: (Inr dl')
              obtain r w3 where tr: "transfer E now dl' del w2 = (r, w3)" by (metis surj_pair)
              from pb sc Inr s(4) latest Some entries plan rr dls tr
              have o: "out = Inr r" "w' = w3" by (simp_all add: pull_body_def nc)
              have dl': "\<forall>f\<in>set dl'. ignores E ps (path f)"
                using sub dls pl by auto
              from transfer_selective[OF tr dl' del lg] o show ?thesis by simp
            qed
          qed
        qed
      qed
    qed
  qed
qed

lemma restore_body_selective:
  assumes rb: "restore_body E now project sid (Some ps) w = (out, w')" and ne: "ps \<noteq> []"
  shows "(\<forall>h p. Download h p \<in> set (log w') \<longrightarrow> Download h p \<in> set (log w) \<or> ignores E ps p) \<and>
         (\<forall>r. out = Inr r \<longrightarrow>
            (\<forall>p\<in>{p \<in> fst ` set (local_files w). walk_visits E p}. \<not> ignores E ps p \<longrightarrow>
               map_of (local_files w') p = None \<and> DeleteLocal p \<in> set (log w')))"
proof (cases "getSnapshot sid (database w)")
  case (Inl e)
  with rb have "out = Inl e" "w' = w" by (simp_all add: restore_body_def)
  then show ?thesis by simp
next
  case gs: (Inr found)
  show ?thesis
  proof (cases found)
    case None
    with rb gs have "out = Inl (Error ''Snapshot not found'')" "w' = w"
      by (simp_all add: restore_body_def)
    then show ?thesis by simp
  next
    case (Some snap)
    obtain sc w1 where sc: "scan_local E w = (sc, w1)" by (metis surj_pair)
    show ?thesis
    proof (cases sc)
      case (Inl e)
      with rb gs Some sc have "out = Inl e" "w' = w1" by (simp_all add: restore_body_def)
      moreover have "w1 = w" using sc Inl scan_local_Inl by blast
      ultimately show ?thesis by simp
    next
      case (Inr sr)
      note s = scan_local_Inr[OF sc[unfolded Inr]]
      show ?thesis
      proof (cases "getSnapshotEntries sid (database w)")
        case (Inl e)
        with rb gs Some sc Inr s(4) have "out = Inl e" "w' = w1"
          by (simp_all add: restore_body_def)
        with s(2) show ?thesis by simp
      next
        case entries: (Inr remoteEntries)
        obtain dl del where plan:
          "restore_plan E (Some ps) (entries sr) remoteEntries = (dl, del)"
          by (metis surj_pair)
        note pl = restore_plan_selective[OF plan ne]
        have del: "\<forall>p\<in>{p \<in> fst ` set (local_files w). walk_visits E p}.
                     \<not> ignores E ps p \<longrightarrow> p \<in> set del"
          using pl s(7) by blast
        obtain r w2 where tr: "transfer E now dl del w1 = (r, w2)" by (metis surj_pair)
        from rb gs Some sc Inr s(4) entries plan tr
        have o: "out = Inr r" "w' = w2" by (simp_all add: restore_body_def)
        have dl: "\<forall>f\<in>set dl. ignores E ps (path f)" using pl by blast
        have lg: "\<forall>h p. Download h p \<in> set (log w1) \<longrightarrow> Download h p \<in> set (log w)"
          using s(2) by simp
        from transfer_selective[OF tr dl del lg] o show ?thesis by simp
      qed
    qed
  qed
qed

subsection \<open>The operations as a whole\<close>

lemma acquire_free:
  "\<not> held l \<Longrightarrow> acquire E machine op now l =
     (Inr (), l\<lparr>held := True, info := Some \<lparr>machineName = machine, lockedAt = now, operation = op\<rparr>\<rparr>)"
  by (simp add: acquire_def)

lemma acquire_held:
  "held l \<Longrightarrow> acquire E machine op now l = (Inl (Error (busy_message E (info l))), l)"
  by (simp add: acquire_def)

lemma pull_free:
  assumes "\<not> held (lock w)"
  shows "pull E now project machine br res inc w =
     (case pull_body E now project br res inc (taken machine ''pull'' now w) of
        (Inl e, w') \<Rightarrow> (Inr (pull_failure e), w'\<lparr>lock := release (lock w')\<rparr>)
      | (Inr r, w') \<Rightarrow> (Inr r, w'\<lparr>lock := release (lock w')\<rparr>))"
  using assms by (simp add: pull_def acquire_free taken_def)

lemma restore_free:
  assumes "\<not> held (lock w)"
  shows "restoreSnapshot E now project sid machine inc w =
     (case restore_body E now project sid inc (taken machine ''restore'' now w) of
        (Inl e, w') \<Rightarrow> (Inr (pull_failure e), w'\<lparr>lock := release (lock w')\<rparr>)
      | (Inr r, w') \<Rightarrow> (Inr r, w'\<lparr>lock := release (lock w')\<rparr>))"
  using assms by (simp add: restoreSnapshot_def acquire_free taken_def)


lemma taken_fields [simp]:
  "log (taken machine op now w) = log w"
  "storage (taken machine op now w) = storage w"
  "database (taken machine op now w) = database w"
  "local (taken machine op now w) = local w"
  "local_files (taken machine op now w) = local_files w"
  by (simp_all add: taken_def local_files_def)

lemma held_release [simp]: "\<not> held (release l)"
  by (simp add: release_def)

lemma released_fields [simp]:
  "log (w\<lparr>lock := l\<rparr>) = log w"
  "storage (w\<lparr>lock := l\<rparr>) = storage w"
  "database (w\<lparr>lock := l\<rparr>) = database w"
  "local (w\<lparr>lock := l\<rparr>) = local w"
  by simp_all

text \<open>
  Claim C1, as the code has it. For every pull or restore invoked with a non-empty list
  of include-patterns: no path is downloaded that matches no pattern (every download
  the operation logs is of a matching path); and when the operation runs to its end
  (for pull: the branch has a snapshot and the result is a success), every file the scan
  found at a path that matches no pattern has been deleted, whether the remote manifest
  has the path or not.
\<close>

theorem selective_sync_downloads_and_deletes:
  assumes "ps \<noteq> []"
  shows "(pull E now project machine br res (Some ps) w = (out, w') \<longrightarrow>
            (\<forall>h p. Download h p \<in> set (log w') \<longrightarrow> Download h p \<in> set (log w) \<or> ignores E ps p) \<and>
            (\<forall>r s. out = Inr r \<and> success r \<and>
                   getLatestSnapshot (project_id project) br (database w) = Inr (Some s) \<longrightarrow>
               (\<forall>p\<in>{p \<in> fst ` set (local_files w). walk_visits E p}. \<not> ignores E ps p \<longrightarrow>
                  map_of (local_files w') p = None \<and> DeleteLocal p \<in> set (log w')))) \<and>
         (restoreSnapshot E now project sid machine (Some ps) w = (out2, w2) \<longrightarrow>
            (\<forall>h p. Download h p \<in> set (log w2) \<longrightarrow> Download h p \<in> set (log w) \<or> ignores E ps p) \<and>
            (\<forall>r. out2 = Inr r \<and> success r \<longrightarrow>
               (\<forall>p\<in>{p \<in> fst ` set (local_files w). walk_visits E p}. \<not> ignores E ps p \<longrightarrow>
                  map_of (local_files w2) p = None \<and> DeleteLocal p \<in> set (log w2))))"
proof (rule conjI; rule impI)
  assume pl: "pull E now project machine br res (Some ps) w = (out, w')"
  show "(\<forall>h p. Download h p \<in> set (log w') \<longrightarrow> Download h p \<in> set (log w) \<or> ignores E ps p) \<and>
        (\<forall>r s. out = Inr r \<and> success r \<and>
               getLatestSnapshot (project_id project) br (database w) = Inr (Some s) \<longrightarrow>
           (\<forall>p\<in>{p \<in> fst ` set (local_files w). walk_visits E p}. \<not> ignores E ps p \<longrightarrow>
              map_of (local_files w') p = None \<and> DeleteLocal p \<in> set (log w')))"
  proof (cases "held (lock w)")
    case True
    with pl have "out = Inl (Error (busy_message E (info (lock w))))" "w' = w"
      by (auto simp: pull_def acquire_held)
    then show ?thesis by simp
  next
    case False
    obtain ob wb where pb: "pull_body E now project br res (Some ps) (taken machine ''pull'' now w) = (ob, wb)"
      by (metis surj_pair)
    note b = pull_body_selective[OF pb assms]
    show ?thesis
    proof (cases ob)
      case (Inl e)
      with pl pb False have "out = Inr (pull_failure e)" "w' = wb\<lparr>lock := release (lock wb)\<rparr>"
        by (simp_all add: pull_free)
      with b show ?thesis by (simp add: pull_failure_def)
    next
      case (Inr r)
      with pl pb False have "out = Inr r" "w' = wb\<lparr>lock := release (lock wb)\<rparr>"
        by (simp_all add: pull_free)
      with b Inr show ?thesis by simp
    qed
  qed
next
  assume rs: "restoreSnapshot E now project sid machine (Some ps) w = (out2, w2)"
  show "(\<forall>h p. Download h p \<in> set (log w2) \<longrightarrow> Download h p \<in> set (log w) \<or> ignores E ps p) \<and>
        (\<forall>r. out2 = Inr r \<and> success r \<longrightarrow>
           (\<forall>p\<in>{p \<in> fst ` set (local_files w). walk_visits E p}. \<not> ignores E ps p \<longrightarrow>
              map_of (local_files w2) p = None \<and> DeleteLocal p \<in> set (log w2)))"
  proof (cases "held (lock w)")
    case True
    with rs have "out2 = Inl (Error (busy_message E (info (lock w))))" "w2 = w"
      by (auto simp: restoreSnapshot_def acquire_held)
    then show ?thesis by simp
  next
    case False
    obtain ob wb where rb: "restore_body E now project sid (Some ps) (taken machine ''restore'' now w) = (ob, wb)"
      by (metis surj_pair)
    note b = restore_body_selective[OF rb assms]
    show ?thesis
    proof (cases ob)
      case (Inl e)
      with rs rb False have "out2 = Inr (pull_failure e)" "w2 = wb\<lparr>lock := release (lock wb)\<rparr>"
        by (simp_all add: restore_free)
      with b show ?thesis by (simp add: pull_failure_def)
    next
      case (Inr r)
      with rs rb False have "out2 = Inr r" "w2 = wb\<lparr>lock := release (lock wb)\<rparr>"
        by (simp_all add: restore_free)
      with b Inr show ?thesis by simp
    qed
  qed
qed


lemma scan_local_taken:
  "scan_local E (taken machine op now w) =
     (case scanDirectory E (local w) of (r, loc) \<Rightarrow> (r, (taken machine op now w)\<lparr>local := loc\<rparr>))"
  by (simp add: scan_local_def)

lemma scanDirectory_files:
  assumes "scanDirectory E loc = (r, loc')"
  shows "files loc' = files loc"
  using assms by (cases "files loc") (auto simp: scanDirectory_def Let_def)

text \<open>
  Claim C6. A pull whose comparison finds at least one conflict and which is given no
  resolutions returns a result with \<^verbatim>\<open>success: false\<close>, the conflicts found, and zero files
  downloaded and deleted; it has downloaded nothing, deleted nothing and renamed nothing
  (it has logged no call), and the files of the directory and the store are as before.
  That the comparison is reached means: the lock was free, the scan went through, and
  the catalog gave the latest snapshot and its entries.
\<close>

theorem pull_returns_conflicts_without_io:
  assumes "\<not> held (lock w)"
    and "scanDirectory E (local w) = (Inr sr, loc)"
    and "getLatestSnapshot (project_id project) br (database w) = Inr (Some s)"
    and "getSnapshotEntries (snapshot_id s) (database w) = Inr remoteEntries"
    and "pull_plan E inc (entries sr) remoteEntries = (dl, cs, del)"
    and "cs \<noteq> []"
  shows "\<exists>w'. pull E now project machine br None inc w =
           (Inr \<lparr>success = False, filesDeleted = 0, bytesTransferred = 0, error = None,
                 filesDownloaded = 0, conflicts = cs\<rparr>, w') \<and>
           log w' = log w \<and> files (local w') = files (local w) \<and> storage w' = storage w"
proof -
  let ?w0 = "taken machine ''pull'' now w"
  have sc: "scan_local E ?w0 = (Inr sr, ?w0\<lparr>local := loc\<rparr>)"
    using assms(2) by (simp add: scan_local_taken)
  have body: "pull_body E now project br None inc ?w0 =
      (Inr \<lparr>success = False, filesDeleted = 0, bytesTransferred = 0, error = None,
            filesDownloaded = 0, conflicts = cs\<rparr>, ?w0\<lparr>local := loc\<rparr>)"
    using sc assms(3,4,5,6) by (simp add: pull_body_def)
  have "files loc = files (local w)" using scanDirectory_files[OF assms(2)] .
  then show ?thesis
    using assms(1) body by (simp add: pull_free)
qed

text \<open>
  Claim C10, as the code has it. When the lock is free, the directory at \<^verbatim>\<open>localPath\<close>
  can be scanned and the catalog has no snapshot of the project on the branch, pull
  returns \<^verbatim>\<open>success: true\<close> with zero files downloaded and deleted and no conflicts; it
  has logged no download, deletion or rename, and the files of the directory, the store
  and the catalog are as before. (The scan has written its hash cache.)
\<close>

theorem pull_without_snapshot:
  assumes "\<not> held (lock w)"
    and "files (local w) = Some fl"
    and "db (database w) = Some c"
    and "\<forall>s\<in>set (snapshots c). \<not> (projectId s = project_id project \<and> branch s = br)"
  shows "\<exists>w'. pull E now project machine br res inc w =
           (Inr \<lparr>success = True, filesDeleted = 0, bytesTransferred = 0, error = None,
                 filesDownloaded = 0, conflicts = []\<rparr>, w') \<and>
           files (local w') = files (local w) \<and> log w' = log w \<and>
           storage w' = storage w \<and> database w' = database w"
proof -
  let ?w0 = "taken machine ''pull'' now w"
  obtain r loc where sd: "scanDirectory E (local w) = (r, loc)" by (metis surj_pair)
  from sd assms(2) obtain sr where r: "r = Inr sr"
    by (auto simp: scanDirectory_def Let_def)
  have sc: "scan_local E ?w0 = (Inr sr, ?w0\<lparr>local := loc\<rparr>)"
    using sd r by (simp add: scan_local_taken)
  have "filter (\<lambda>s. projectId s = project_id project \<and> branch s = br) (snapshots c) = []"
    using assms(4) by (simp add: filter_empty_conv)
  then have none: "getLatestSnapshot (project_id project) br (database w) = Inr None"
    using assms(3) by (simp add: getLatestSnapshot_def)
  have body: "pull_body E now project br res inc ?w0 =
      (Inr \<lparr>success = True, filesDeleted = 0, bytesTransferred = 0, error = None,
            filesDownloaded = 0, conflicts = []\<rparr>, ?w0\<lparr>local := loc\<rparr>)"
    using sc none by (simp add: pull_body_def)
  have "files loc = files (local w)" using scanDirectory_files[OF sd] .
  then show ?thesis
    using assms(1) body by (simp add: pull_free)
qed

section \<open>Worked examples\<close>

lemmas example_defs = example_world_def example_db_def example_catalog_def example_snapshot_def
  example_entries_def example_project_def example_storage_def example_env_def
  example_hash_def example_gzip_def example_gunzip_def example_matches_def example_ignores_def
  example_projectIgnores_def example_time_def locked_world_def conflict_world_def
  fresh_world_def orphan_world_def empty_catalog_def hex32_def hexdigit_def upt_0_8

lemmas engine_defs = pull_def pull_body_def restoreSnapshot_def restore_body_def
  acquire_def release_def busy_message_def scan_local_def
  scanDirectory_def processFile_def walk_visits_def dir_paths_def js_Map_def
  getLatestSnapshot_def getSnapshotEntries_def getSnapshot_def pull_plan_def restore_plan_def
  selectiveMatcher_def skipped_def files_to_delete_def restore_classify_def transfer_def
  download_file_def retrieveFile_def lookup_object_def object_at_def isGzipped_def
  local_files_def set_local_files_def pull_failure_def taken_def Let_def

text \<open>
  Scenario 4 of the specification: peer B, whose directory holds \<^verbatim>\<open>Other/k.txt\<close>, pulls
  with the include-pattern \<^verbatim>\<open>Content/**\<close>.
\<close>

lemma example_pull_selective:
  "fst (pull example_env 1000 example_project ''B'' ''main'' None (Some [''Content/**'']) example_world) =
     Inr \<lparr>success = True, filesDeleted = 1, bytesTransferred = 1, error = None,
          filesDownloaded = 1, conflicts = []\<rparr>"
  "log (snd (pull example_env 1000 example_project ''B'' ''main'' None (Some [''Content/**'']) example_world)) =
     [Download ''0000000100000058'' ''Content/x.uasset'', DeleteLocal ''Other/k.txt'']"
  "local_files (snd (pull example_env 1000 example_project ''B'' ''main'' None (Some [''Content/**'']) example_world)) =
     [(''Content/x.uasset'', \<lparr>content = ''X'', mtimeMs = 1000\<rparr>)]"
  by (simp_all add: example_defs engine_defs)

lemma example_restore_selective:
  "fst (restoreSnapshot example_env 1000 example_project ''s1'' ''B'' (Some [''Content/**'']) example_world) =
     Inr \<lparr>success = True, filesDeleted = 1, bytesTransferred = 1, error = None,
          filesDownloaded = 1, conflicts = []\<rparr>"
  "log (snd (restoreSnapshot example_env 1000 example_project ''s1'' ''B'' (Some [''Content/**'']) example_world)) =
     [Download ''0000000100000058'' ''Content/x.uasset'', DeleteLocal ''Other/k.txt'']"
  "local_files (snd (restoreSnapshot example_env 1000 example_project ''s1'' ''B'' (Some [''Content/**'']) example_world)) =
     [(''Content/x.uasset'', \<lparr>content = ''X'', mtimeMs = 1000\<rparr>)]"
  by (simp_all add: example_defs engine_defs)

lemma example_world_facts:
  "local_files example_world = [(''Other/k.txt'', \<lparr>content = ''K'', mtimeMs = 10\<rparr>)]"
  "log example_world = []"
  "walk_visits example_env ''Other/k.txt''"
  "\<not> ignores example_env [''Content/**''] ''Other/k.txt''"
  "getLatestSnapshot (project_id example_project) ''main'' (database example_world) =
     Inr (Some example_snapshot)"
  by (simp_all add: example_defs engine_defs)

text \<open>
  Counterexample to C1 as stated: \<^verbatim>\<open>Other/k.txt\<close> matches no include-pattern and is not in
  the remote manifest; the pull succeeds and has deleted it.
\<close>

theorem selective_sync_counterexample:
  "map_of (local_files example_world) ''Other/k.txt'' = Some \<lparr>content = ''K'', mtimeMs = 10\<rparr> \<and>
   \<not> ignores example_env [''Content/**''] ''Other/k.txt'' \<and>
   fst (pull example_env 1000 example_project ''B'' ''main'' None (Some [''Content/**'']) example_world) =
     Inr \<lparr>success = True, filesDeleted = 1, bytesTransferred = 1, error = None,
          filesDownloaded = 1, conflicts = []\<rparr> \<and>
   map_of (local_files (snd (pull example_env 1000 example_project ''B'' ''main'' None
      (Some [''Content/**'']) example_world))) ''Other/k.txt'' = None \<and>
   DeleteLocal ''Other/k.txt'' \<in> set (log (snd (pull example_env 1000 example_project ''B'' ''main'' None
      (Some [''Content/**'']) example_world)))"
  by (simp add: example_pull_selective example_world_facts)

text \<open>Witness for C1: the same pull, and the restore of the snapshot with the same pattern.\<close>

theorem selective_sync_downloads_and_deletes_witness:
  "[''Content/**''] \<noteq> [] \<and>
   fst (pull example_env 1000 example_project ''B'' ''main'' None (Some [''Content/**'']) example_world) =
     Inr \<lparr>success = True, filesDeleted = 1, bytesTransferred = 1, error = None,
          filesDownloaded = 1, conflicts = []\<rparr> \<and>
   getLatestSnapshot (project_id example_project) ''main'' (database example_world) =
     Inr (Some example_snapshot) \<and>
   ''Other/k.txt'' \<in> fst ` set (local_files example_world) \<and>
   walk_visits example_env ''Other/k.txt'' \<and>
   \<not> ignores example_env [''Content/**''] ''Other/k.txt'' \<and>
   map_of (local_files (snd (pull example_env 1000 example_project ''B'' ''main'' None
      (Some [''Content/**'']) example_world))) ''Other/k.txt'' = None \<and>
   log (snd (pull example_env 1000 example_project ''B'' ''main'' None
      (Some [''Content/**'']) example_world)) =
     [Download ''0000000100000058'' ''Content/x.uasset'', DeleteLocal ''Other/k.txt''] \<and>
   ignores example_env [''Content/**''] ''Content/x.uasset'' \<and>
   fst (restoreSnapshot example_env 1000 example_project ''s1'' ''B'' (Some [''Content/**'']) example_world) =
     Inr \<lparr>success = True, filesDeleted = 1, bytesTransferred = 1, error = None,
          filesDownloaded = 1, conflicts = []\<rparr> \<and>
   map_of (local_files (snd (restoreSnapshot example_env 1000 example_project ''s1'' ''B''
      (Some [''Content/**'']) example_world))) ''Other/k.txt'' = None"
proof -
  let ?P = "pull example_env 1000 example_project ''B'' ''main'' None (Some [''Content/**'']) example_world"
  let ?R = "restoreSnapshot example_env 1000 example_project ''s1'' ''B'' (Some [''Content/**'']) example_world"
  have ne: "[''Content/**''] \<noteq> []" by simp
  have m: "ignores example_env [''Content/**''] ''Content/x.uasset''"
    by (simp add: example_defs)
  from selective_sync_downloads_and_deletes[OF ne, of example_env 1000 example_project "''B''" "''main''"
      None example_world "fst ?P" "snd ?P" "''s1''" "fst ?R" "snd ?R"]
  show ?thesis
    using m by (simp add: example_pull_selective example_restore_selective example_world_facts)
qed

lemmas store_defs = storeFile_def exists_object_def prune_def cleanupTemp_def
  runGarbageCollection_def getAllReferencedHashes_def blob_present_def listed_once_def
  delete_conv' update_conv'





text \<open>Witness for C6: peer B holds a later version of \<^verbatim>\<open>Content/x.uasset\<close> and pulls.\<close>

theorem pull_returns_conflicts_without_io_witness:
  "\<not> held (lock conflict_world) \<and>
   fst (pull example_env 1000 example_project ''B'' ''main'' None None conflict_world) =
     Inr \<lparr>success = False, filesDeleted = 0, bytesTransferred = 0, error = None,
          filesDownloaded = 0,
          conflicts = [\<lparr>cpath = ''Content/x.uasset'',
            localEntry = \<lparr>path = ''Content/x.uasset'', hash = ''0000000100000042'',
               size_bytes = 1, modifiedAt = 200, isDirectory = False\<rparr>,
            remoteEntry = \<lparr>path = ''Content/x.uasset'', hash = ''0000000100000058'',
               size_bytes = 1, modifiedAt = 50, isDirectory = False\<rparr>,
            localModifiedAt = 200, remoteModifiedAt = 50\<rparr>]\<rparr> \<and>
   log (snd (pull example_env 1000 example_project ''B'' ''main'' None None conflict_world)) = [] \<and>
   files (local (snd (pull example_env 1000 example_project ''B'' ''main'' None None conflict_world))) =
     files (local conflict_world)"
proof -
  let ?sr = "\<lparr>entries = [\<lparr>path = ''Content/x.uasset'', hash = ''0000000100000042'',
               size_bytes = 1, modifiedAt = 200, isDirectory = False\<rparr>],
             scanTotalSize = 1, scanFileCount = 1\<rparr>"
  let ?c = "\<lparr>cpath = ''Content/x.uasset'',
            localEntry = \<lparr>path = ''Content/x.uasset'', hash = ''0000000100000042'',
               size_bytes = 1, modifiedAt = 200, isDirectory = False\<rparr>,
            remoteEntry = \<lparr>path = ''Content/x.uasset'', hash = ''0000000100000058'',
               size_bytes = 1, modifiedAt = 50, isDirectory = False\<rparr>,
            localModifiedAt = 200, remoteModifiedAt = 50\<rparr>"
  have h1: "\<not> held (lock conflict_world)" by (simp add: example_defs)
  have h2: "scanDirectory example_env (local conflict_world) =
      (Inr ?sr, snd (scanDirectory example_env (local conflict_world)))"
    by (simp add: example_defs engine_defs)
  have h3: "getLatestSnapshot (project_id example_project) ''main'' (database conflict_world) =
      Inr (Some example_snapshot)"
    by (simp add: example_defs engine_defs)
  have h4: "getSnapshotEntries (snapshot_id example_snapshot) (database conflict_world) =
      Inr example_entries"
    by (simp add: example_defs engine_defs)
  have h5: "pull_plan example_env None (entries ?sr) example_entries =
      (drop 1 example_entries, [?c], [])"
    by (simp add: example_defs engine_defs)
  have h6: "[?c] \<noteq> []" by simp
  from pull_returns_conflicts_without_io[OF h1 h2 h3 h4 h5 h6, of 1000 "''B''"]
  obtain w' where "pull example_env 1000 example_project ''B'' ''main'' None None conflict_world =
      (Inr \<lparr>success = False, filesDeleted = 0, bytesTransferred = 0, error = None,
            filesDownloaded = 0, conflicts = [?c]\<rparr>, w')"
    "log w' = log conflict_world" "files (local w') = files (local conflict_world)"
    by blast
  then show ?thesis using h1 by (simp add: example_defs)
qed


text \<open>
  Witness for C9: the store holds the three blobs of the snapshot and one that no file
  entry names; the collection removes that one and keeps the three.
\<close>

theorem gc_keeps_exactly_the_referenced_blobs_witness:
  "\<not> held (lock orphan_world) \<and> db (database orphan_world) = Some example_catalog \<and>
   listed_once (storage orphan_world) \<and>
   map (\<lambda>(s, r). hash r) (file_entries example_catalog) =
     [''0000000100000058'', ''0000000100000059'', ''000000010000005a''] \<and>
   blob_present (storage orphan_world) ''0000000100000058'' \<and>
   blob_present (storage orphan_world) ''0000000100000059'' \<and>
   blob_present (storage orphan_world) ''000000010000005a'' \<and>
   blob_present (storage orphan_world) ''ff00000000000000'' \<and>
   fst (runGarbageCollection example_env 1000 ''B'' orphan_world) = Inr (1, 4) \<and>
   \<not> blob_present (storage (snd (runGarbageCollection example_env 1000 ''B'' orphan_world)))
       ''ff00000000000000'' \<and>
   blob_present (storage (snd (runGarbageCollection example_env 1000 ''B'' orphan_world)))
       ''0000000100000058''"
proof -
  have h1: "\<not> held (lock orphan_world)" by (simp add: example_defs)
  have h2: "db (database orphan_world) = Some example_catalog" by (simp add: example_defs)
  have h3: "listed_once (storage orphan_world)" by (simp add: example_defs listed_once_def)
  have h4: "\<forall>h \<in> set (map (\<lambda>(s, r). hash r) (file_entries example_catalog)).
      blob_present (storage orphan_world) h"
    by (simp add: example_defs blob_present_def lookup_object_def object_at_def)
  have o: "blob_present (storage orphan_world) ''ff00000000000000''"
    by (simp add: example_defs blob_present_def lookup_object_def object_at_def)
  have r: "fst (runGarbageCollection example_env 1000 ''B'' orphan_world) = Inr (1, 4)"
    by (simp add: example_defs engine_defs store_defs)
  from gc_keeps_exactly_the_referenced_blobs[OF h1 h2 h3 h4, of example_env 1000 "''B''"]
  obtain result w' where g: "runGarbageCollection example_env 1000 ''B'' orphan_world = (Inr result, w')"
    and iff: "\<forall>h. blob_present (storage w') h \<longleftrightarrow>
        h \<in> set (map (\<lambda>(s, r). hash r) (file_entries example_catalog))"
    by blast
  have "\<not> blob_present (storage w') ''ff00000000000000''"
    using iff by (simp add: example_defs)
  moreover have "blob_present (storage w') ''0000000100000058''"
    using iff by (simp add: example_defs)
  moreover have "map (\<lambda>(s, r). hash r) (file_entries example_catalog) =
     [''0000000100000058'', ''0000000100000059'', ''000000010000005a'']"
    by (simp add: example_defs)
  ultimately show ?thesis using h1 h2 h3 h4 o r g by simp
qed

text \<open>
  Counterexample to C10 as stated: the catalog has no snapshot and peer B pulls. The
  pull succeeds, and the scan has created the hash cache \<^verbatim>\<open>.sync/cache.json\<close> in the
  directory, which had none. And with the lock held by peer A the pull returns no
  result: it throws.
\<close>

theorem pull_without_snapshot_counterexample:
  "db (database fresh_world) = Some empty_catalog \<and> snapshots empty_catalog = [] \<and>
   cache_file (local fresh_world) = None \<and>
   fst (pull example_env 1000 example_project ''B'' ''main'' None None fresh_world) =
     Inr \<lparr>success = True, filesDeleted = 0, bytesTransferred = 0, error = None,
          filesDownloaded = 0, conflicts = []\<rparr> \<and>
   cache_file (local (snd (pull example_env 1000 example_project ''B'' ''main'' None None fresh_world))) =
     Some [(''Other/k.txt'', \<lparr>cache_mtime = 10, cache_size = 1, cache_hash = ''000000010000004b''\<rparr>)] \<and>
   fst (pull example_env 1000 example_project ''B'' ''main'' None None
          (fresh_world\<lparr>lock := lock locked_world\<rparr>)) =
     Inl (Error ''Sync in progress by A (push started at 12:00:00)'')"
  by (simp add: example_defs engine_defs)

text \<open>Witness for C10: the same pull on the catalog without snapshots.\<close>

theorem pull_without_snapshot_witness:
  "\<not> held (lock fresh_world) \<and>
   files (local fresh_world) = Some [(''Other/k.txt'', \<lparr>content = ''K'', mtimeMs = 10\<rparr>)] \<and>
   db (database fresh_world) = Some empty_catalog \<and>
   snapshots empty_catalog = [] \<and>
   fst (pull example_env 1000 example_project ''B'' ''main'' None None fresh_world) =
     Inr \<lparr>success = True, filesDeleted = 0, bytesTransferred = 0, error = None,
          filesDownloaded = 0, conflicts = []\<rparr> \<and>
   files (local (snd (pull example_env 1000 example_project ''B'' ''main'' None None fresh_world))) =
     files (local fresh_world) \<and>
   log (snd (pull example_env 1000 example_project ''B'' ''main'' None None fresh_world)) = []"
proof -
  have h1: "\<not> held (lock fresh_world)" by (simp add: example_defs)
  have h2: "files (local fresh_world) = Some [(''Other/k.txt'', \<lparr>content = ''K'', mtimeMs = 10\<rparr>)]"
    by (simp add: example_defs)
  have h3: "db (database fresh_world) = Some empty_catalog" by (simp add: example_defs)
  have h4: "\<forall>s\<in>set (snapshots empty_catalog).
      \<not> (projectId s = project_id example_project \<and> branch s = ''main'')"
    by (simp add: example_defs)
  from pull_without_snapshot[OF h1 h2 h3 h4, of example_env 1000 "''B''" None None]
  obtain w' where "pull example_env 1000 example_project ''B'' ''main'' None None fresh_world =
      (Inr \<lparr>success = True, filesDeleted = 0, bytesTransferred = 0, error = None,
            filesDownloaded = 0, conflicts = []\<rparr>, w')"
    "files (local w') = files (local fresh_world)" "log w' = log fresh_world"
    by blast
  then show ?thesis using h1 h2 h3 h4 by (simp add: example_defs)
qed

end
